theory Spec2Isabelle
  imports Main "HOL-Library.Word" "HOL-Library.Log_Nat"
begin

unbundle bit_operations_syntax

section \<open>The keyset counter store (\<open>wallet.ts\<close>, lines 185--202)\<close>

text \<open>
  \<^verbatim>\<open>type KeysetCounter = { id: string; counter: number }\<close>.  The store
  \<open>keysetCounters\<close> is an array of such entries; \<open>Array.prototype.find\<close> returns the
  first entry whose \<open>id\<close> matches, and both operations mutate that entry in place or
  push a new one at the end.
\<close>

record KeysetCounter =
  kc_id :: string
  counter :: int

text \<open>\<open>this.keysetCounters.find((c) => c.id === id)\<close>\<close>

definition find_counter :: "KeysetCounter list \<Rightarrow> string \<Rightarrow> KeysetCounter option" where
  "find_counter cs i = find (\<lambda>c. kc_id c = i) cs"

text \<open>In-place update of the first entry with the given id (the object \<open>find\<close> returned).\<close>

fun bump_first :: "string \<Rightarrow> int \<Rightarrow> KeysetCounter list \<Rightarrow> KeysetCounter list" where
  "bump_first i by [] = []"
| "bump_first i by (c # cs) =
     (if kc_id c = i then c\<lparr>counter := counter c + by\<rparr> # cs else c # bump_first i by cs)"

text \<open>
  \<open>keysetCounter(id)\<close>: returns the stored counter, or pushes \<open>{id, counter: 1}\<close> and
  returns 1.  The result is the returned number and the store afterwards.
\<close>

definition keysetCounter :: "KeysetCounter list \<Rightarrow> string \<Rightarrow> int \<times> KeysetCounter list" where
  "keysetCounter cs i =
     (case find_counter cs i of
        Some c \<Rightarrow> (counter c, cs)
      | None \<Rightarrow> (1, cs @ [\<lparr>kc_id = i, counter = 1\<rparr>]))"

text \<open>
  \<open>increaseKeysetCounter(id, by)\<close>: adds \<open>by\<close> to the stored counter, or pushes
  \<open>{id, counter: by}\<close>.
\<close>

definition increaseKeysetCounter :: "KeysetCounter list \<Rightarrow> string \<Rightarrow> int \<Rightarrow> KeysetCounter list" where
  "increaseKeysetCounter cs i by =
     (case find_counter cs i of
        Some c \<Rightarrow> bump_first i by cs
      | None \<Rightarrow> cs @ [\<lparr>kc_id = i, counter = by\<rparr>])"

section \<open>Splitting an amount into powers of two (\<open>wallet.ts\<close>, lines 249--259)\<close>

text \<open>
  \<^verbatim>\<open>for (let i = 0; i < 32; i++) { const mask = 1 << i;
     if ((value & mask) !== 0) chunks.push(Math.pow(2, i)); }\<close>

  The operands of \<open>&\<close> and \<open><<\<close> are converted to 32-bit integers (ToInt32 takes the
  mathematical value modulo \<open>2^32\<close>), so the test is on the 32-bit word of \<open>value\<close>.
  \<open>Math.pow(2, i)\<close> is the number \<open>2^i\<close>, not a 32-bit value.
\<close>

definition to_int32 :: "int \<Rightarrow> 32 word" where
  "to_int32 v = word_of_int v"

function splitAmount_loop :: "nat \<Rightarrow> int \<Rightarrow> int list \<Rightarrow> int list" where
  "splitAmount_loop i v chunks =
     (if i < 32 then
        (let mask = (push_bit i 1 :: 32 word) in
         if to_int32 v AND mask \<noteq> 0
         then splitAmount_loop (i + 1) v (chunks @ [2 ^ i])
         else splitAmount_loop (i + 1) v chunks)
      else chunks)"
  by pat_completeness auto
termination
  by (relation "measure (\<lambda>(i, v, chunks). 32 - i)") auto

declare splitAmount_loop.simps [simp del]

definition splitAmount :: "int \<Rightarrow> int list" where
  "splitAmount v = splitAmount_loop 0 v []"

section \<open>Errors\<close>

text \<open>
  What a JavaScript \<open>throw\<close> can carry in this file: an \<open>Error\<close> object with a
  message (\<open>throw new Error("...")\<close>, and the errors of the HTTP client and of the
  Cashu library), a bare string (\<open>throw "could not mint"\<close>), or the \<open>TypeError\<close>
  the runtime raises on a property access on \<open>undefined\<close>.  A function that can throw
  returns \<open>error + 'a\<close>, with \<open>Inl\<close> for the thrown value.
\<close>

datatype error = Error string | ThrownString string | TypeError string

definition BalanceTooLow :: error where
  "BalanceTooLow = Error ''Balance too low''"

definition AlreadyProcessingQuote :: error where
  "AlreadyProcessingQuote = Error ''already processing an melt quote.''"

section \<open>Proofs, coin selection and spendable proofs (\<open>wallet.ts\<close>, lines 281--318)\<close>

text \<open>
  \<open>WalletProof = Proof & { reserved: boolean; quote?: string }\<close>: the token atom of the
  Cashu library with the wallet's two bookkeeping fields.  A \<open>Proof\<close> that never got
  the fields reads \<open>reserved\<close> as \<open>undefined\<close>, which every test of this file treats
  as \<open>false\<close>; it is modelled with \<open>reserved = False\<close> and \<open>quote = None\<close>.
  The field \<open>id\<close> (the keyset id) is named \<open>keyset\<close> here.
\<close>

record WalletProof =
  keyset :: string
  amount :: int
  secret :: string
  C :: string
  reserved :: bool
  quote :: "string option"

text \<open>\<open>proofs.reduce((s, t) => (s += t.amount), 0)\<close>\<close>

definition reduce_amounts :: "WalletProof list \<Rightarrow> int" where
  "reduce_amounts ps = foldl (\<lambda>s t. s + amount t) 0 ps"

text \<open>
  The Cashu library's wallet object (\<open>this.wallet\<close>, package \<open>@cashu/cashu-ts\<close>) is not
  part of this repository: its two local computations are parameters of the model.
  \<open>selectProofsToSend\<close> returns the pair \<open>(send, keep)\<close>.
\<close>

record CashuWallet =
  selectProofsToSend :: "WalletProof list \<Rightarrow> int \<Rightarrow> bool \<Rightarrow> WalletProof list \<times> WalletProof list"
  getFeesForProofs :: "WalletProof list \<Rightarrow> int"

definition coinSelect :: "CashuWallet \<Rightarrow> WalletProof list \<Rightarrow> int \<Rightarrow> bool \<Rightarrow> WalletProof list" where
  "coinSelect lib ps amt includeFees =
     (if reduce_amounts ps < amt then []
      else
        let (selectedProofs, keep) = selectProofsToSend lib ps amt includeFees
        in map (\<lambda>p. p\<lparr>reserved := False\<rparr>) selectedProofs)"

text \<open>
  Modelled from the spec: \<open>proofsStore.getUnreservedProofs\<close> and \<open>proofsStore.sumProofs\<close>
  live in \<open>stores/proofs.ts\<close>, which is not among the sources.  The spec (section 4.2)
  gives them as \<open>unreserved(all) \<rightarrow> list\<close>, the proofs that are not reserved, and
  \<open>sum(proofs) \<rightarrow> integer\<close>, the sum of the amounts.
\<close>

definition getUnreservedProofs :: "WalletProof list \<Rightarrow> WalletProof list" where
  "getUnreservedProofs ps = filter (\<lambda>p. \<not> reserved p) ps"

definition sumProofs :: "WalletProof list \<Rightarrow> int" where
  "sumProofs ps = sum_list (map amount ps)"

text \<open>
  \<open>spendableProofs(proofs, amount)\<close>: the warning shown to the user before the throw
  has no effect on the wallet state and is left out.
\<close>

definition spendableProofs :: "WalletProof list \<Rightarrow> int \<Rightarrow> error + WalletProof list" where
  "spendableProofs ps amt =
     (let spendable = getUnreservedProofs ps
      in if sumProofs spendable < amt then Inl BalanceTooLow else Inr spendable)"

section \<open>JavaScript numbers\<close>

text \<open>
  Counters, proof amounts and quote amounts are integers far below \<open>2^53\<close> and are
  modelled as \<open>int\<close>.  Where the source computes with fractions (the multi-path
  allocation, the LNURL amount) a number is a rational, and every arithmetic operation
  rounds its exact result to the nearest IEEE-754 double, ties to even, as the
  language prescribes: \<open>fl64\<close>.  A double is \<open>m * 2^u\<close> with \<open>|m| < 2^53\<close> and
  \<open>u \<ge> -1074\<close>; the spacing of the doubles around \<open>x\<close> with \<open>2^e \<le> |x| < 2^(e+1)\<close>
  is \<open>2^(e - 52)\<close>, and \<open>2^(-1074)\<close> in the subnormal range.  Overflow to infinity
  (results from \<open>2^1024\<close> on) is not modelled.  \<open>NaN\<close>, which arises from reading a
  missing array element, is \<open>None\<close> in a \<open>rat option\<close>.
\<close>

definition ilog2 :: "rat \<Rightarrow> int" where
  \<comment> \<open>\<open>\<lfloor>log\<^sub>2 x\<rfloor>\<close> for \<open>x > 0\<close>, from the bit lengths of numerator and denominator\<close>
  "ilog2 x =
     (let (p, q) = quotient_of x; d = bitlen p - bitlen q
      in if 2 powi d \<le> x then d else d - 1)"

definition round_half_even :: "rat \<Rightarrow> int" where
  "round_half_even y =
     (let f = \<lfloor>y\<rfloor>; d = y - of_int f
      in if d < 1 / 2 then f else if 1 / 2 < d then f + 1 else if even f then f else f + 1)"

definition ulp_exponent :: "rat \<Rightarrow> int" where
  "ulp_exponent x = max (ilog2 \<bar>x\<bar> - 52) (- 1074)"

definition fl64 :: "rat \<Rightarrow> rat" where
  "fl64 x =
     (if x = 0 then 0
      else let u = ulp_exponent x in of_int (round_half_even (x / 2 powi u)) * 2 powi u)"

definition js_mul :: "rat \<Rightarrow> rat \<Rightarrow> rat" where
  "js_mul a b = fl64 (a * b)"

definition js_add :: "rat \<Rightarrow> rat \<Rightarrow> rat" where
  "js_add a b = fl64 (a + b)"

definition js_sub :: "rat \<Rightarrow> rat \<Rightarrow> rat" where
  "js_sub a b = fl64 (a - b)"

definition js_div :: "rat \<Rightarrow> rat \<Rightarrow> rat option" where
  \<comment> \<open>a zero divisor gives an infinity or \<open>NaN\<close>; neither is a rational\<close>
  "js_div a b = (if b = 0 then None else Some (fl64 (a / b)))"

text \<open>\<open>Math.round\<close>: the nearest integer, a tie going towards \<open>+\<infinity>\<close>; exact.\<close>

definition Math_round :: "rat \<Rightarrow> int" where
  "Math_round x = \<lfloor>x + 1 / 2\<rfloor>"

text \<open>
  Two bounds used for the rounding errors: half the spacing of the subnormal doubles, and
  the error one round of the multi-path allocation can add for an invoice amount \<open>N\<close>.
\<close>

definition tiny :: rat where
  "tiny = 1 / 2 ^ 1075"

definition step_error :: "rat \<Rightarrow> rat" where
  "step_error N = (3 * N + 2) / 2 ^ 53"

section \<open>Strings\<close>

text \<open>
  \<open>String.prototype.startsWith\<close>, \<open>includes\<close> and \<open>split\<close> (with a non-empty
  separator), and \<open>toLowerCase\<close> on ASCII letters.
\<close>

definition startsWith :: "string \<Rightarrow> string \<Rightarrow> bool" where
  "startsWith s p = (take (length p) s = p)"

fun includes_str :: "string \<Rightarrow> string \<Rightarrow> bool" where
  "includes_str [] sub = (sub = [])"
| "includes_str (c # cs) sub = (startsWith (c # cs) sub \<or> includes_str cs sub)"

function split_from :: "string \<Rightarrow> string \<Rightarrow> string \<Rightarrow> string list" where
  "split_from sep cur s =
     (if s = [] then [cur]
      else if sep \<noteq> [] \<and> startsWith s sep then cur # split_from sep [] (drop (length sep) s)
      else split_from sep (cur @ [hd s]) (tl s))"
  by pat_completeness auto
termination
  by (relation "measure (\<lambda>(sep, cur, s). length s)") auto

declare split_from.simps [simp del]

definition split_str :: "string \<Rightarrow> string \<Rightarrow> string list" where
  "split_str s sep = split_from sep [] s"

definition lower_char :: "char \<Rightarrow> char" where
  "lower_char c =
     (let n = (of_char c :: nat) in if 65 \<le> n \<and> n \<le> 90 then char_of (n + 32) else c)"

definition toLowerCase :: "string \<Rightarrow> string" where
  "toLowerCase s = map lower_char s"

text \<open>
  \<open>error.message\<close>: an \<open>Error\<close> object has one; a thrown string has none (the property
  reads \<open>undefined\<close>).
\<close>

fun message :: "error \<Rightarrow> string option" where
  "message (Error m) = Some m"
| "message (TypeError m) = Some m"
| "message (ThrownString s) = None"

section \<open>The stores and the world outside\<close>

datatype MeltQuoteState = UNPAID | PENDING | PAID

datatype MintQuoteState = MINT_UNPAID | MINT_PAID | MINT_ISSUED

datatype CheckStateEnum = CS_UNSPENT | CS_PENDING | CS_SPENT

datatype InvoiceStatus = pending | paid

record InvoiceHistory =
  ih_amount :: int
  ih_bolt11 :: string
  ih_quote :: string
  ih_memo :: string
  ih_date :: string
  ih_status :: InvoiceStatus
  ih_mint :: string
  ih_unit :: "string option"

record MeltQuotePayload =
  mqp_unit :: string
  mqp_request :: string
  mqp_mpp_amount :: "int option"

record MeltQuoteResponse =
  mq_quote :: string
  mq_amount :: int
  mq_fee_reserve :: int
  mq_state :: MeltQuoteState

record MeltProofsResponse =
  mp_quote :: MeltQuoteResponse
  mp_change :: "WalletProof list"

record ProofState =
  ps_Y :: string
  ps_state :: CheckStateEnum

record MintKeyset =
  ks_id :: string
  ks_unit :: string
  ks_active :: bool

record Mint =
  mint_url :: string
  mint_keysets :: "MintKeyset list option"

record InvoiceData =
  inv_sat :: rat
  inv_memo :: string
  inv_bolt11 :: string

record LnurlPay =
  lp_domain :: string
  lp_callback :: string
  lp_minSendable :: rat
  lp_maxSendable :: rat
  lp_tag :: string

record PayInput =
  inp_request :: string
  inp_amount :: "rat option"
  inp_comment :: string
  inp_quote :: string

text \<open>
  \<open>payInvoiceData\<close>, the pay-invoice session.  The two \<open>error\<close> fields hold \<open>""\<close>
  (here \<open>None\<close>) or the caught error; \<open>meltQuote.response\<close> is tested against \<open>null\<close>
  by \<open>melt\<close> and is an option.
\<close>

record PayInvoiceData =
  blocking :: bool
  pid_show :: bool
  meltQuote_payload :: MeltQuotePayload
  meltQuote_response :: "MeltQuoteResponse option"
  meltQuote_error :: "error option"
  multiPartMeltQuotes_payloads :: "(Mint \<times> MeltQuotePayload) list"
  multiPartMeltQuotes_responses :: "MeltQuoteResponse list"
  multiPartMeltQuotes_error :: "error option"
  invoice :: "InvoiceData option"
  lnurlpay :: LnurlPay
  input :: PayInput

record HistoryToken =
  ht_status :: InvoiceStatus
  ht_amount :: int
  ht_date :: string
  ht_token :: "string option"
  ht_mint :: string
  ht_unit :: string

text \<open>
  Every request that leaves the wallet is logged, so that ``issues no request'' can be
  stated: the log is not a field of the source.
\<close>

datatype Request =
    CreateMeltQuote string MeltQuotePayload
  | CheckMeltQuote string
  | CheckMintQuote string
  | SwapRequest int
  | MintProofsRequest string
  | MeltProofsRequest string
  | CheckProofsStates "string list"
  | HttpGet string

text \<open>
  The state the functions of \<open>wallet.ts\<close> read and write: the wallet store's own
  fields, the proofs of the active mint (\<open>mintStore.activeProofs\<close>, owned by the mint
  store) and the token history (owned by the token store).
\<close>

record WalletState =
  keysetCounters :: "KeysetCounter list"
  invoiceHistory :: "InvoiceHistory list"
  payInvoiceData :: PayInvoiceData
  proofs :: "WalletProof list"
  historyTokens :: "HistoryToken list"
  requests :: "Request list"

text \<open>
  The world outside the wallet store, fixed during one call: the answers of the mint
  and of the LNURL host, the calls of the Cashu library that talk to the mint (their
  result is the mint's to decide), the selection state of the mint store, and the
  \<open>isUnloading\<close> flag.  None of this is code of \<open>wallet.ts\<close>.
\<close>

record Env =
  wallet :: CashuWallet
  activeUnit :: string
  activeMintUrl :: string
  activeMint :: "error + Mint"
  multiMints :: "Mint list"
  overallBalance :: rat
  weights :: "rat list"
  createMeltQuote :: "string \<Rightarrow> MeltQuotePayload \<Rightarrow> error + MeltQuoteResponse"
  assertMintError :: "MeltQuoteResponse \<Rightarrow> error option"
  checkMeltQuote :: "string \<Rightarrow> error + MeltQuoteResponse"
  checkMintQuote :: "string \<Rightarrow> error + MintQuoteState"
  wallet_send :: "int \<Rightarrow> WalletProof list \<Rightarrow> int \<Rightarrow> error + (WalletProof list \<times> WalletProof list)"
  wallet_mintProofs :: "int \<Rightarrow> string \<Rightarrow> string \<Rightarrow> int \<Rightarrow> error + WalletProof list"
  wallet_meltProofs ::
    "MeltQuoteResponse \<Rightarrow> WalletProof list \<Rightarrow> string \<Rightarrow> int \<Rightarrow> error + MeltProofsResponse"
  wallet_checkProofsStates :: "WalletProof list \<Rightarrow> error + ProofState list"
  hashToCurve :: "string \<Rightarrow> string"
  serializeProofs :: "WalletProof list \<Rightarrow> string option"
  currentDateStr :: string
  isUnloading :: bool
  axios_get :: "string \<Rightarrow> error + LnurlPay"
  bech32_decode :: "string \<Rightarrow> error + string"

definition log_request :: "Request \<Rightarrow> WalletState \<Rightarrow> WalletState" where
  "log_request r w = w\<lparr>requests := requests w @ [r]\<rparr>"

subsection \<open>The collaborating stores\<close>

text \<open>
  Modelled from the spec: \<open>mintStore.addProofs\<close>, \<open>mintStore.removeProofs\<close>
  (\<open>stores/mints.ts\<close>), \<open>proofsStore.setReserved\<close> (\<open>stores/proofs.ts\<close>) and
  \<open>tokenStore.addPaidToken\<close> (\<open>stores/tokens.ts\<close>) are not among the sources.  The
  spec (sections 3 and 4.2) gives \<open>add(proofs)\<close>, \<open>remove(proofs)\<close> and
  \<open>set_reserved(proofs, bool, quote_id?)\<close>, where ``equality of a proof uses secret as
  identity'', \<open>reserved\<close> excludes a proof from selection and \<open>quote\<close> ``optionally binds
  a reservation to the melt quote that caused it''; a paid token is appended to the
  token history.
\<close>

definition addProofs :: "WalletProof list \<Rightarrow> WalletState \<Rightarrow> WalletState" where
  "addProofs ps w = w\<lparr>proofs := proofs w @ ps\<rparr>"

definition removeProofs :: "WalletProof list \<Rightarrow> WalletState \<Rightarrow> WalletState" where
  "removeProofs ps w = w\<lparr>proofs := filter (\<lambda>p. secret p \<notin> set (map secret ps)) (proofs w)\<rparr>"

definition setReserved :: "WalletProof list \<Rightarrow> bool \<Rightarrow> string option \<Rightarrow> WalletState \<Rightarrow> WalletState" where
  "setReserved ps b q w =
     w\<lparr>proofs := map (\<lambda>p. if secret p \<in> set (map secret ps)
                            then p\<lparr>reserved := b, quote := q\<rparr> else p) (proofs w)\<rparr>"

definition addPaidToken :: "Env \<Rightarrow> int \<Rightarrow> string option \<Rightarrow> WalletState \<Rightarrow> WalletState" where
  "addPaidToken env amt serializedProofs w =
     w\<lparr>historyTokens := historyTokens w @
          [\<lparr>ht_status = paid, ht_amount = amt, ht_date = currentDateStr env,
            ht_token = serializedProofs, ht_mint = activeMintUrl env,
            ht_unit = activeUnit env\<rparr>]\<rparr>"

subsection \<open>Keyset counters on the wallet state\<close>

definition read_counter :: "string \<Rightarrow> WalletState \<Rightarrow> int \<times> WalletState" where
  \<comment> \<open>\<open>this.keysetCounter(id)\<close>\<close>
  "read_counter i w =
     (let (c, cs) = keysetCounter (keysetCounters w) i in (c, w\<lparr>keysetCounters := cs\<rparr>))"

definition bump_counter :: "string \<Rightarrow> int \<Rightarrow> WalletState \<Rightarrow> WalletState" where
  \<comment> \<open>\<open>this.increaseKeysetCounter(id, by)\<close>\<close>
  "bump_counter i by w = w\<lparr>keysetCounters := increaseKeysetCounter (keysetCounters w) i by\<rparr>"

text \<open>
  \<open>handleOutputsHaveAlreadyBeenSignedError\<close> (lines 1516--1526).  On a thrown value
  without \<open>message\<close>, \<open>error.message.includes\<close> raises a \<open>TypeError\<close>.
\<close>

definition outputs_signed_phrase :: string where
  "outputs_signed_phrase = ''outputs have already been signed''"

definition handleOutputsHaveAlreadyBeenSignedError ::
  "string \<Rightarrow> error \<Rightarrow> WalletState \<Rightarrow> (error + bool) \<times> WalletState" where
  "handleOutputsHaveAlreadyBeenSignedError keysetId err w =
     (case message err of
        None \<Rightarrow> (Inl (TypeError ''Cannot read properties of undefined (reading includes)''), w)
      | Some m \<Rightarrow>
          if includes_str m outputs_signed_phrase then (Inr True, bump_counter keysetId 10 w)
          else (Inr False, w))"

text \<open>
  \<open>getKeyset\<close> (lines 203--240): among the keysets of the active unit, the active ones,
  those with a hex id (prefix \<open>00\<close>) first; the first of them.

  Modelled from the spec: \<open>MintClass.unitKeysets\<close> (\<open>stores/mints.ts\<close>) is not among the
  sources; the spec (section 3) speaks of ``a unit's keysets'', here the keysets of the
  mint whose unit is the active one.
\<close>

definition getKeyset :: "Env \<Rightarrow> error + string" where
  "getKeyset env =
     (case activeMint env of
        Inl e \<Rightarrow> Inl e
      | Inr m \<Rightarrow>
          (case mint_keysets m of
             None \<Rightarrow> Inl (Error ''no keysets found.'')
           | Some keysets \<Rightarrow>
               if length keysets = 0 then Inl (Error ''no keysets found.'')
               else
                 let unitKeysets = filter (\<lambda>k. ks_unit k = activeUnit env) keysets
                 in if length unitKeysets = 0 then Inl (Error ''no keysets found for unit'')
                    else
                      let activeKeysets = filter ks_active unitKeysets;
                          hexKeysets = filter (\<lambda>k. startsWith (ks_id k) ''00'') activeKeysets;
                          base64Keysets =
                            filter (\<lambda>k. \<not> startsWith (ks_id k) ''00'') activeKeysets;
                          sortedKeysets = hexKeysets @ base64Keysets
                      in if length sortedKeysets = 0
                         then Inl (Error ''no active keysets found for unit'')
                         else Inr (ks_id (hd sortedKeysets))))"

section \<open>Melt quotes (\<open>wallet.ts\<close>, lines 637--747)\<close>

definition set_pay :: "(PayInvoiceData \<Rightarrow> PayInvoiceData) \<Rightarrow> WalletState \<Rightarrow> WalletState" where
  \<comment> \<open>an assignment to a field of \<open>this.payInvoiceData\<close>\<close>
  "set_pay f w = w\<lparr>payInvoiceData := f (payInvoiceData w)\<rparr>"

text \<open>The body of the \<open>try\<close> block of \<open>meltQuote\<close>.\<close>

definition meltQuote_try :: "Env \<Rightarrow> WalletState \<Rightarrow> (error + MeltQuoteResponse) \<times> WalletState" where
  "meltQuote_try env w =
     (if inp_request (input (payInvoiceData w)) = [] then (Inl (Error ''no invoice provided.''), w)
      else
        let payload = \<lparr>mqp_unit = activeUnit env,
                        mqp_request = inp_request (input (payInvoiceData w)),
                        mqp_mpp_amount = None\<rparr>;
            w1 = set_pay (\<lambda>d. d\<lparr>meltQuote_payload := payload\<rparr>) w
        in case activeMint env of
             Inl e \<Rightarrow> (Inl e, w1)
           | Inr m \<Rightarrow>
               (let w2 = log_request (CreateMeltQuote (mint_url m) payload) w1
                in (case createMeltQuote env (mint_url m) payload of
                      Inl e \<Rightarrow> (Inl e, w2)
                    | Inr data \<Rightarrow>
                        (case assertMintError env data of
                           Some e \<Rightarrow> (Inl e, w2)
                         | None \<Rightarrow>
                             (Inr data,
                              set_pay (\<lambda>d. d\<lparr>meltQuote_response := Some data,
                                               blocking := False\<rparr>) w2)))))"

definition meltQuote :: "Env \<Rightarrow> WalletState \<Rightarrow> (error + MeltQuoteResponse) \<times> WalletState" where
  "meltQuote env w =
     (if blocking (payInvoiceData w) then (Inl AlreadyProcessingQuote, w)
      else
        let w0 = set_pay (\<lambda>d. d\<lparr>blocking := True, meltQuote_error := None\<rparr>) w
        in case meltQuote_try env w0 of
             (Inr data, w1) \<Rightarrow> (Inr data, w1)
           | (Inl e, w1) \<Rightarrow>
               (Inl e, set_pay (\<lambda>d. d\<lparr>blocking := False, meltQuote_error := Some e\<rparr>) w1))"

subsection \<open>The multi-path allocation (lines 670--693)\<close>

text \<open>
  One round of the \<open>forEach\<close>: \<open>partialAmountFloat = invoiceAmount * weights[i] + carry\<close>,
  \<open>partialAmount = Math.round(partialAmountFloat)\<close>, and the new carry
  \<open>partialAmountFloat - partialAmount\<close>, each operation in double precision.
\<close>

definition mpp_step :: "rat \<Rightarrow> rat \<Rightarrow> rat \<Rightarrow> int \<times> rat" where
  "mpp_step invoiceAmount wt carry =
     (let partialAmountFloat = js_add (js_mul invoiceAmount wt) carry;
          partialAmount = Math_round partialAmountFloat
      in (partialAmount, js_sub partialAmountFloat (of_int partialAmount)))"

definition weight_at :: "rat list \<Rightarrow> nat \<Rightarrow> rat option" where
  \<comment> \<open>\<open>weights[i]\<close>; \<open>undefined\<close> beyond the end, which makes the product \<open>NaN\<close>\<close>
  "weight_at ws i = (if i < length ws then Some (ws ! i) else None)"

definition mpp_payload :: "string \<Rightarrow> string \<Rightarrow> int \<Rightarrow> MeltQuotePayload" where
  "mpp_payload u request partialAmount =
     \<lparr>mqp_unit = u, mqp_request = request, mqp_mpp_amount = Some partialAmount\<rparr>"

text \<open>
  The loop over \<open>multiMints\<close> with its index and the carry.  A \<open>NaN\<close> carry (\<open>None\<close>)
  makes every later amount \<open>NaN\<close>, and \<open>NaN > 0\<close> is false: nothing more is pushed.
\<close>

fun mpp_payloads ::
  "string \<Rightarrow> string \<Rightarrow> rat \<Rightarrow> rat list \<Rightarrow> Mint list \<Rightarrow> nat \<Rightarrow> rat option
    \<Rightarrow> (Mint \<times> MeltQuotePayload) list" where
  "mpp_payloads u request invoiceAmount ws [] i carry = []"
| "mpp_payloads u request invoiceAmount ws (m # ms) i carry =
     (case (weight_at ws i, carry) of
        (Some wt, Some c) \<Rightarrow>
          (let (partialAmount, carry') = mpp_step invoiceAmount wt c;
               rest = mpp_payloads u request invoiceAmount ws ms (i + 1) (Some carry')
           in if partialAmount > 0 then (m, mpp_payload u request partialAmount) # rest
              else rest)
      | _ \<Rightarrow> mpp_payloads u request invoiceAmount ws ms (i + 1) None)"

declare mpp_payloads.simps [simp del]

text \<open>
  The loop logs every amount it computes (\<open>console.log(`partialAmount (integer): ...`)\<close>),
  pushed or skipped; \<open>None\<close> stands for a logged \<open>NaN\<close>.
\<close>

fun mpp_logged :: "rat \<Rightarrow> rat list \<Rightarrow> Mint list \<Rightarrow> nat \<Rightarrow> rat option \<Rightarrow> int option list" where
  "mpp_logged invoiceAmount ws [] i carry = []"
| "mpp_logged invoiceAmount ws (m # ms) i carry =
     (case (weight_at ws i, carry) of
        (Some wt, Some c) \<Rightarrow>
          (let (partialAmount, carry') = mpp_step invoiceAmount wt c
           in Some partialAmount # mpp_logged invoiceAmount ws ms (i + 1) (Some carry'))
      | _ \<Rightarrow> None # mpp_logged invoiceAmount ws ms (i + 1) None)"

declare mpp_logged.simps [simp del]

text \<open>The quotes are requested one after the other; the first failure ends the loop.\<close>

fun request_quotes ::
  "Env \<Rightarrow> (Mint \<times> MeltQuotePayload) list \<Rightarrow> MeltQuoteResponse list \<Rightarrow> WalletState
    \<Rightarrow> (error + MeltQuoteResponse list) \<times> WalletState" where
  "request_quotes env [] responses w = (Inr responses, w)"
| "request_quotes env (payload # rest) responses w =
     (let w1 = log_request (CreateMeltQuote (mint_url (fst payload)) (snd payload)) w
      in (case createMeltQuote env (mint_url (fst payload)) (snd payload) of
            Inl e \<Rightarrow> (Inl e, w1)
          | Inr data \<Rightarrow>
              (case assertMintError env data of
                 Some e \<Rightarrow> (Inl e, w1)
               | None \<Rightarrow> request_quotes env rest (responses @ [data]) w1)))"

definition multiPathMeltQuotes_try ::
  "Env \<Rightarrow> WalletState \<Rightarrow> (error + MeltQuoteResponse list) \<times> WalletState" where
  "multiPathMeltQuotes_try env w =
     (if inp_request (input (payInvoiceData w)) = [] then (Inl (Error ''no invoice provided.''), w)
      else if length (multiMints env) = 0
      then (Inl (Error ''no mint supports multi-part payments''), w)
      else
        case invoice (payInvoiceData w) of
          None \<Rightarrow> (Inl (Error ''invoice does not have an amount''), w)
        | Some bolt \<Rightarrow>
            let invoiceAmount = inv_sat bolt
            in if invoiceAmount = 0 then (Inl (Error ''invoice does not have an amount''), w)
               else if overallBalance env < invoiceAmount
               then (Inl (Error ''insufficient multi-mint balance''), w)
               else
                 let payloads = mpp_payloads (activeUnit env)
                                  (inp_request (input (payInvoiceData w))) invoiceAmount
                                  (weights env) (multiMints env) 0 (Some 0);
                     w1 = set_pay (\<lambda>d. d\<lparr>multiPartMeltQuotes_payloads := payloads\<rparr>) w
                 in (case request_quotes env payloads [] w1 of
                       (Inl e, w2) \<Rightarrow> (Inl e, w2)
                     | (Inr responses, w2) \<Rightarrow>
                         (Inr responses,
                          set_pay (\<lambda>d. d\<lparr>multiPartMeltQuotes_responses := responses,
                                           blocking := False\<rparr>) w2)))"

definition multiPathMeltQuotes ::
  "Env \<Rightarrow> WalletState \<Rightarrow> (error + MeltQuoteResponse list) \<times> WalletState" where
  "multiPathMeltQuotes env w =
     (if blocking (payInvoiceData w) then (Inl AlreadyProcessingQuote, w)
      else
        let w0 = set_pay (\<lambda>d. d\<lparr>blocking := True, multiPartMeltQuotes_error := None\<rparr>) w
        in case multiPathMeltQuotes_try env w0 of
             (Inr responses, w1) \<Rightarrow> (Inr responses, w1)
           | (Inl e, w1) \<Rightarrow>
               (Inl e,
                set_pay (\<lambda>d. d\<lparr>blocking := False, multiPartMeltQuotes_error := Some e\<rparr>) w1))"

section \<open>LNURL pay, first step (lines 1425--1467)\<close>

definition nth_opt :: "'a list \<Rightarrow> nat \<Rightarrow> 'a option" where
  "nth_opt xs i = (if i < length xs then Some (xs ! i) else None)"

definition empty_input :: PayInput where
  "empty_input = \<lparr>inp_request = [], inp_amount = None, inp_comment = [], inp_quote = []\<rparr>"

text \<open>
  What follows the fetch: \<open>host.split("https://")[1]\<close> is \<open>undefined\<close> for a host
  without that prefix, and \<open>.split("/")\<close> on it raises a \<open>TypeError\<close>.
\<close>

definition lnurl_store :: "string \<Rightarrow> LnurlPay \<Rightarrow> WalletState \<Rightarrow> (error + unit) \<times> WalletState" where
  "lnurl_store host data w =
     (if lp_tag data = ''payRequest'' then
        let w1 = set_pay (\<lambda>d. d\<lparr>lnurlpay := data\<rparr>) w
        in (case nth_opt (split_str host ''https://'') 1 of
             None \<Rightarrow> (Inl (TypeError ''Cannot read properties of undefined (reading split)''), w1)
           | Some rest \<Rightarrow>
               let w2 = set_pay (\<lambda>d. d\<lparr>lnurlpay := (lnurlpay d)\<lparr>lp_domain := hd (split_str rest ''/'')\<rparr>\<rparr>) w1;
                   w3 = (if lp_maxSendable (lnurlpay (payInvoiceData w2))
                            = lp_minSendable (lnurlpay (payInvoiceData w2))
                         then set_pay (\<lambda>d. d\<lparr>input := (input d)\<lparr>inp_amount :=
                                 js_div (lp_maxSendable (lnurlpay d)) 1000\<rparr>\<rparr>) w2
                         else w2);
                   w4 = set_pay (\<lambda>d. d\<lparr>invoice := None\<rparr>) w3;
                   w5 = set_pay (\<lambda>d. d\<lparr>input := empty_input\<rparr>) w4;
                   w6 = set_pay (\<lambda>d. d\<lparr>pid_show := True\<rparr>) w5
               in (Inr (), w6))
      else (Inr (), w))"

definition lnurl_fetch :: "Env \<Rightarrow> string \<Rightarrow> WalletState \<Rightarrow> (error + unit) \<times> WalletState" where
  "lnurl_fetch env host w =
     (let w1 = log_request (HttpGet host) w
      in case axios_get env host of
           Inl e \<Rightarrow> (Inl e, w1)
         | Inr data \<Rightarrow> lnurl_store host data w1)"

definition lnurlPayFirst :: "Env \<Rightarrow> string \<Rightarrow> WalletState \<Rightarrow> (error + unit) \<times> WalletState" where
  "lnurlPayFirst env address w =
     (let parts = split_str address ''@''
      in if length parts = 2 then
           lnurl_fetch env (''https://'' @ parts ! 1 @ ''/.well-known/lnurlp/'' @ parts ! 0) w
         else if take 6 (toLowerCase address) = ''lnurl1'' then
           (case bech32_decode env address of
              Inl e \<Rightarrow> (Inl e, w)
            | Inr host \<Rightarrow> lnurl_fetch env host w)
         else (Inr (), w))"

section \<open>Checking proofs with the mint (lines 906--955)\<close>

text \<open>
  The result is \<open>undefined\<close> (\<open>None\<close>) for an empty list, and the spent proofs
  otherwise.  The \<open>catch\<close> block rethrows.
\<close>

definition checkProofsSpendable ::
  "Env \<Rightarrow> WalletProof list \<Rightarrow> bool \<Rightarrow> WalletState
    \<Rightarrow> (error + WalletProof list option) \<times> WalletState" where
  "checkProofsSpendable env ps update_history w =
     (if length ps = 0 then (Inr None, w)
      else
        let w1 = log_request (CheckProofsStates (map (\<lambda>p. hashToCurve env (secret p)) ps)) w
        in case wallet_checkProofsStates env ps of
             Inl e \<Rightarrow> (Inl e, w1)
           | Inr proofStates \<Rightarrow>
               ( let spentProofsStates = filter (\<lambda>p. ps_state p = CS_SPENT) proofStates;
                   spentProofs =
                     filter (\<lambda>p. find (\<lambda>s. ps_Y s = hashToCurve env (secret p)) spentProofsStates
                                   \<noteq> None) ps
               in if length spentProofs \<noteq> 0 then
                    (let w2 = removeProofs spentProofs w1
                     in (case serializeProofs env spentProofs of
                           None \<Rightarrow> (Inl (Error ''could not serialize proofs.''), w2)
                         | Some serializedProofs \<Rightarrow>
                             (Inr (Some spentProofs),
                              if update_history
                              then addPaidToken env (- sumProofs spentProofs) (Some serializedProofs) w2
                              else w2)))
                  else (Inr (Some spentProofs), w1)))"

text \<open>The amounts asked of the mints, \<open>options.mpp.amount\<close> of each payload pushed.\<close>

definition mpp_amounts :: "(Mint \<times> MeltQuotePayload) list \<Rightarrow> int list" where
  "mpp_amounts payloads =
     map (\<lambda>payload. case mqp_mpp_amount (snd payload) of Some a \<Rightarrow> a | None \<Rightarrow> 0) payloads"

section \<open>Send (\<open>wallet.ts\<close>, lines 341--408)\<close>

text \<open>
  The end of the \<open>try\<close> block, common to the two branches: \<open>invalidate\<close> removes the
  send proofs, then they are marked reserved (with no quote).
\<close>

definition send_finish ::
  "bool \<Rightarrow> WalletProof list \<Rightarrow> WalletProof list \<Rightarrow> WalletState
    \<Rightarrow> (WalletProof list \<times> WalletProof list) \<times> WalletState" where
  "send_finish invalidate keepProofs sendProofs w =
     (let w1 = (if invalidate then removeProofs sendProofs w else w)
      in ((keepProofs, sendProofs), setReserved sendProofs True None w1))"

text \<open>
  The \<open>try\<close> block.  A failure carries, with the error, the value the variable
  \<open>proofsToSend\<close> has when the error is thrown: the \<open>catch\<close> block reads it.  The
  third branch of the source (\<open>could not split proofs.\<close>) is unreachable, the first two
  tests being complementary.
\<close>

definition send_try ::
  "Env \<Rightarrow> string \<Rightarrow> WalletProof list \<Rightarrow> int \<Rightarrow> bool \<Rightarrow> bool \<Rightarrow> WalletState
    \<Rightarrow> ((error \<times> WalletProof list) + (WalletProof list \<times> WalletProof list)) \<times> WalletState" where
  "send_try env keysetId ps amt invalidate includeFees w =
     (case spendableProofs ps amt of
        Inl e \<Rightarrow> (Inl (e, []), w)
      | Inr spendable \<Rightarrow>
          (let proofsToSend = coinSelect (wallet env) spendable amt includeFees;
               totalAmount = reduce_amounts proofsToSend;
               fees = (if includeFees then getFeesForProofs (wallet env) proofsToSend else 0);
               targetAmount = amt + fees
           in if totalAmount \<noteq> targetAmount then
                (let (cnt, w1) = read_counter keysetId w;
                     proofsToSend' = coinSelect (wallet env) spendable targetAmount True;
                     w2 = log_request (SwapRequest targetAmount) w1
                 in (case wallet_send env targetAmount proofsToSend' cnt of
                       Inl e \<Rightarrow> (Inl (e, proofsToSend'), w2)
                     | Inr (keepProofs, sendProofs) \<Rightarrow>
                         (let w3 = bump_counter keysetId
                                     (int (length keepProofs) + int (length sendProofs)) w2;
                              w4 = addProofs keepProofs w3;
                              w5 = addProofs sendProofs w4;
                              w6 = removeProofs proofsToSend' w5;
                              (r, w7) = send_finish invalidate keepProofs sendProofs w6
                          in (Inr r, w7))))
              else
                (let (r, w1) = send_finish invalidate [] proofsToSend w in (Inr r, w1))))"

text \<open>
  The \<open>catch\<close> block of \<open>send\<close> and of \<open>mint\<close> ends with the probe for the
  ``outputs have already been signed'' error and rethrows; a \<open>TypeError\<close> raised by the
  probe replaces the error.
\<close>

definition probe_and_rethrow ::
  "string \<Rightarrow> error \<Rightarrow> WalletState \<Rightarrow> error \<times> WalletState" where
  "probe_and_rethrow keysetId err w =
     (case handleOutputsHaveAlreadyBeenSignedError keysetId err w of
        (Inl te, w1) \<Rightarrow> (te, w1)
      | (Inr b, w1) \<Rightarrow> (err, w1))"

definition send ::
  "Env \<Rightarrow> WalletProof list \<Rightarrow> int \<Rightarrow> bool \<Rightarrow> bool \<Rightarrow> WalletState
    \<Rightarrow> (error + (WalletProof list \<times> WalletProof list)) \<times> WalletState" where
  "send env ps amt invalidate includeFees w =
     (case getKeyset env of
        Inl e \<Rightarrow> (Inl e, w)
      | Inr keysetId \<Rightarrow>
          (case send_try env keysetId ps amt invalidate includeFees w of
             (Inr r, w1) \<Rightarrow> (Inr r, w1)
           | (Inl (err, proofsToSend), w1) \<Rightarrow>
               (let w2 = setReserved proofsToSend False None w1;
                    (thrown, w3) = probe_and_rethrow keysetId err w2
                in (Inl thrown, w3))))"

section \<open>Mint (lines 571--631)\<close>

fun mark_first_paid :: "string \<Rightarrow> InvoiceHistory list \<Rightarrow> InvoiceHistory list" where
  "mark_first_paid q [] = []"
| "mark_first_paid q (i # is) =
     (if ih_quote i = q then i\<lparr>ih_status := paid\<rparr> # is else i # mark_first_paid q is)"

definition setInvoicePaid :: "string \<Rightarrow> WalletState \<Rightarrow> WalletState" where
  "setInvoicePaid quoteId w = w\<lparr>invoiceHistory := mark_first_paid quoteId (invoiceHistory w)\<rparr>"

definition mint_try ::
  "Env \<Rightarrow> string \<Rightarrow> int \<Rightarrow> string \<Rightarrow> WalletState \<Rightarrow> (error + WalletProof list) \<times> WalletState" where
  "mint_try env keysetId amt hash w =
     (case activeMint env of
        Inl e \<Rightarrow> (Inl e, w)
      | Inr m \<Rightarrow>
          (let w1 = log_request (CheckMintQuote hash) w
           in (case checkMintQuote env hash of
                 Inl e \<Rightarrow> (Inl e, w1)
               | Inr st \<Rightarrow>
                   if st \<noteq> MINT_PAID then (Inl (Error ''invoice not paid yet.''), w1)
                   else
                     (let (cnt, w2) = read_counter keysetId w1;
                          w3 = log_request (MintProofsRequest hash) w2
                      in (case wallet_mintProofs env amt hash keysetId cnt of
                            Inl e \<Rightarrow> (Inl e, w3)
                          | Inr minted \<Rightarrow>
                              (let w4 = bump_counter keysetId (int (length minted)) w3
                               in if length minted = 0 then (Inl (ThrownString ''could not mint''), w4)
                                  else
                                    (let w5 = addProofs minted w4;
                                         w6 = setInvoicePaid hash w5
                                     in (case serializeProofs env minted of
                                           None \<Rightarrow>
                                             (Inl (Error ''could not serialize proofs.''), w6)
                                         | Some serializedProofs \<Rightarrow>
                                             (Inr minted,
                                              addPaidToken env amt (Some serializedProofs) w6)))))))))"

definition mint ::
  "Env \<Rightarrow> int \<Rightarrow> string \<Rightarrow> WalletState \<Rightarrow> (error + WalletProof list) \<times> WalletState" where
  "mint env amt hash w =
     (case getKeyset env of
        Inl e \<Rightarrow> (Inl e, w)
      | Inr keysetId \<Rightarrow>
          (case mint_try env keysetId amt hash w of
             (Inr r, w1) \<Rightarrow> (Inr r, w1)
           | (Inl err, w1) \<Rightarrow>
               (let (thrown, w2) = probe_and_rethrow keysetId err w1 in (Inl thrown, w2))))"

section \<open>Melt (lines 748--892)\<close>

definition addOutgoingPendingInvoiceToHistory ::
  "Env \<Rightarrow> MeltQuoteResponse \<Rightarrow> WalletProof list \<Rightarrow> WalletState \<Rightarrow> WalletState" where
  "addOutgoingPendingInvoiceToHistory env q sendProofs w =
     (let w1 = setReserved sendProofs True (Some (mq_quote q)) w
      in w1\<lparr>invoiceHistory := invoiceHistory w1 @
               [\<lparr>ih_amount = - (mq_amount q + mq_fee_reserve q),
                 ih_bolt11 = inp_request (input (payInvoiceData w1)),
                 ih_quote = mq_quote q, ih_memo = ''Outgoing invoice'',
                 ih_date = currentDateStr env, ih_status = pending,
                 ih_mint = activeMintUrl env, ih_unit = Some (activeUnit env)\<rparr>]\<rparr>)"

text \<open>\<open>findIndex\<close> and \<open>splice(index, 1)\<close>: the first entry of that quote is removed.\<close>

fun remove_first_quote :: "string \<Rightarrow> InvoiceHistory list \<Rightarrow> InvoiceHistory list" where
  "remove_first_quote q [] = []"
| "remove_first_quote q (i # is) = (if ih_quote i = q then is else i # remove_first_quote q is)"

definition removeOutgoingInvoiceFromHistory :: "string \<Rightarrow> WalletState \<Rightarrow> WalletState" where
  "removeOutgoingInvoiceFromHistory q w =
     w\<lparr>invoiceHistory := remove_first_quote q (invoiceHistory w)\<rparr>"

text \<open>
  \<open>updateInvoiceInHistory(quote, {status: "paid", amount})\<close>: every entry of the quote
  gets the status, and the amount unless it is 0 (\<open>if (options.amount)\<close>).
\<close>

definition updateInvoiceInHistory :: "MeltQuoteResponse \<Rightarrow> int \<Rightarrow> WalletState \<Rightarrow> WalletState" where
  "updateInvoiceInHistory q amt w =
     w\<lparr>invoiceHistory :=
         map (\<lambda>i. if ih_quote i = mq_quote q
                   then (if amt \<noteq> 0 then i\<lparr>ih_status := paid, ih_amount := amt\<rparr>
                         else i\<lparr>ih_status := paid\<rparr>)
                   else i) (invoiceHistory w)\<rparr>"

text \<open>
  \<open>Math.ceil(Math.log2(fee_reserve)) || 1\<close> for a positive integer fee reserve: the
  least \<open>k\<close> with \<open>fee_reserve \<le> 2^k\<close>, and 1 where that is 0.  The logarithm is taken
  exactly.
\<close>

definition countChangeOutputs :: "int \<Rightarrow> int" where
  "countChangeOutputs fee_reserve =
     (let k = bitlen (fee_reserve - 1) in if k = 0 then 1 else k)"

text \<open>
  The \<open>try\<close> block of \<open>melt\<close>, after \<open>send\<close>.  A failure carries the value of
  \<open>keysetCounterIncrease\<close>, which the \<open>catch\<close> block reads: the source adds the change
  outputs to it and not the send proofs.  \<open>data.change\<close> is taken to be an array.
\<close>

definition melt_try ::
  "Env \<Rightarrow> MeltQuoteResponse \<Rightarrow> string \<Rightarrow> WalletProof list \<Rightarrow> int \<Rightarrow> WalletState
    \<Rightarrow> ((error \<times> int) + MeltProofsResponse) \<times> WalletState" where
  "melt_try env q keysetId sendProofs amt w =
     (let w1 = addOutgoingPendingInvoiceToHistory env q sendProofs w;
          (cnt, w2) = read_counter keysetId w1;
          w3 = bump_counter keysetId (int (length sendProofs)) w2;
          keysetCounterIncrease =
            (if mq_fee_reserve q > 0 then countChangeOutputs (mq_fee_reserve q) else 0);
          w4 = (if mq_fee_reserve q > 0
                then bump_counter keysetId (countChangeOutputs (mq_fee_reserve q)) w3 else w3);
          w5 = log_request (MeltProofsRequest (mq_quote q)) w4
      in (case wallet_meltProofs env q sendProofs keysetId cnt of
            Inl e \<Rightarrow> (Inl (e, keysetCounterIncrease), w5)
          | Inr data \<Rightarrow>
              if mq_state (mp_quote data) \<noteq> PAID
              then (Inl (Error ''Invoice not paid.'', keysetCounterIncrease), w5)
              else
                (let amount_paid = amt - sumProofs (mp_change data);
                     w6 = removeProofs sendProofs w5;
                     w7 = addProofs (mp_change data) w6;
                     w8 = addPaidToken env (- amount_paid) (serializeProofs env sendProofs) w7;
                     w9 = updateInvoiceInHistory q (- amount_paid) w8;
                     w10 = set_pay (\<lambda>d. d\<lparr>invoice :=
                               Some \<lparr>inv_sat = 0, inv_memo = [], inv_bolt11 = []\<rparr>,
                             pid_show := False\<rparr>) w9
                 in (Inr data, w10))))"

text \<open>
  The \<open>catch\<close> block of \<open>melt\<close> (lines 861--889).  An error of the re-query itself
  leaves the block at once.
\<close>

definition melt_catch ::
  "Env \<Rightarrow> MeltQuoteResponse \<Rightarrow> string \<Rightarrow> WalletProof list \<Rightarrow> error \<Rightarrow> int \<Rightarrow> WalletState
    \<Rightarrow> error \<times> WalletState" where
  "melt_catch env q keysetId sendProofs err keysetCounterIncrease w =
     (if isUnloading env then (err, w)
      else
        (case activeMint env of
           Inl e \<Rightarrow> (e, w)
         | Inr m \<Rightarrow>
             (let w1 = log_request (CheckMeltQuote (mq_quote q)) w
              in (case checkMeltQuote env (mq_quote q) of
                    Inl e \<Rightarrow> (e, w1)
                  | Inr mintQuote \<Rightarrow>
                      if mq_state mintQuote = PAID \<or> mq_state mintQuote = PENDING then (err, w1)
                      else
                        (let w2 = setReserved sendProofs False None w1;
                             w3 = bump_counter keysetId (- keysetCounterIncrease) w2;
                             w4 = removeOutgoingInvoiceFromHistory (mq_quote q) w3
                         in probe_and_rethrow keysetId err w4)))))"

text \<open>Lines 798--891: what \<open>melt\<close> does with the send proofs.\<close>

definition melt_pay ::
  "Env \<Rightarrow> MeltQuoteResponse \<Rightarrow> string \<Rightarrow> WalletProof list \<Rightarrow> int \<Rightarrow> WalletState
    \<Rightarrow> (error + MeltProofsResponse) \<times> WalletState" where
  "melt_pay env q keysetId sendProofs amt w =
     (case melt_try env q keysetId sendProofs amt w of
        (Inr data, w1) \<Rightarrow> (Inr data, w1)
      | (Inl (err, keysetCounterIncrease), w1) \<Rightarrow>
          (let (thrown, w2) = melt_catch env q keysetId sendProofs err keysetCounterIncrease w1
           in (Inl thrown, w2)))"

definition melt :: "Env \<Rightarrow> WalletState \<Rightarrow> (error + MeltProofsResponse) \<times> WalletState" where
  "melt env w =
     (if blocking (payInvoiceData w) then (Inl (Error ''already processing an invoice.''), w)
      else
        (case invoice (payInvoiceData w) of
           None \<Rightarrow> (Inl (Error ''no invoice provided.''), w)
         | Some bolt \<Rightarrow>
             if find (\<lambda>i. ih_bolt11 i = inv_bolt11 bolt \<and> ih_amount i < 0 \<and> ih_status i = paid)
                  (invoiceHistory w) \<noteq> None
             then (Inl (Error ''invoice already paid.''), w)
             else
               (case meltQuote_response (payInvoiceData w) of
                  None \<Rightarrow> (Inl (Error ''no quote found.''), w)
                | Some q \<Rightarrow>
                    (let amt = mq_amount q + mq_fee_reserve q
                     in (case getKeyset env of
                           Inl e \<Rightarrow> (Inl e, w)
                         | Inr keysetId \<Rightarrow>
                             (case send env (proofs w) amt False True w of
                                (Inl e, w1) \<Rightarrow> (Inl e, w1)
                              | (Inr (keepProofs, sendProofs), w1) \<Rightarrow>
                                  if length sendProofs = 0
                                  then (Inl (Error ''could not split proofs.''), w1)
                                  else melt_pay env q keysetId sendProofs amt w1))))))"

text \<open>
  The counter a keyset stands at: what \<open>keysetCounter(id)\<close> would return, 1 for a keyset
  that has no entry yet.
\<close>

definition counter_value :: "WalletState \<Rightarrow> string \<Rightarrow> int" where
  "counter_value w i = fst (keysetCounter (keysetCounters w) i)"

text \<open>The test of \<open>handleOutputsHaveAlreadyBeenSignedError\<close> on a thrown value.\<close>

definition outputs_already_signed :: "error \<Rightarrow> bool" where
  "outputs_already_signed e =
     (case message e of None \<Rightarrow> False | Some m \<Rightarrow> includes_str m outputs_signed_phrase)"

text \<open>
  The proofs of the store without the wallet's bookkeeping fields: adding or removing a
  proof changes this list, reserving or releasing one does not.
\<close>

definition proof_atoms :: "WalletState \<Rightarrow> (string \<times> int \<times> string \<times> string) list" where
  "proof_atoms w = map (\<lambda>p. (keyset p, amount p, secret p, C p)) (proofs w)"

section \<open>Concrete wallets, proofs and worlds used to exercise the model\<close>

text \<open>A stand-in for the library's selector: it sends the first proof and keeps the rest.\<close>

definition greedy_wallet :: CashuWallet where
  "greedy_wallet = \<lparr> selectProofsToSend = (\<lambda>ps a f. (take 1 ps, drop 1 ps)),
                     getFeesForProofs = (\<lambda>ps. 0) \<rparr>"

definition proof8 :: WalletProof where
  "proof8 = \<lparr> keyset = ''00ad'', amount = 8, secret = ''s1'', C = ''c1'',
              reserved = True, quote = None \<rparr>"

definition proof4 :: WalletProof where
  "proof4 = \<lparr> keyset = ''00ad'', amount = 4, secret = ''s2'', C = ''c2'',
              reserved = False, quote = None \<rparr>"

text \<open>The pay-invoice session and the stores as the source initialises them.\<close>

definition initial_pay :: PayInvoiceData where
  "initial_pay =
     \<lparr>blocking = False, pid_show = False,
      meltQuote_payload = \<lparr>mqp_unit = [], mqp_request = [], mqp_mpp_amount = None\<rparr>,
      meltQuote_response =
        Some \<lparr>mq_quote = [], mq_amount = 0, mq_fee_reserve = 0, mq_state = UNPAID\<rparr>,
      meltQuote_error = None,
      multiPartMeltQuotes_payloads = [], multiPartMeltQuotes_responses = [],
      multiPartMeltQuotes_error = None,
      invoice = Some \<lparr>inv_sat = 0, inv_memo = [], inv_bolt11 = []\<rparr>,
      lnurlpay = \<lparr>lp_domain = [], lp_callback = [], lp_minSendable = 0, lp_maxSendable = 0,
                  lp_tag = []\<rparr>,
      input = empty_input\<rparr>"

definition initial_state :: WalletState where
  "initial_state =
     \<lparr>keysetCounters = [], invoiceHistory = [], payInvoiceData = initial_pay, proofs = [],
      historyTokens = [], requests = []\<rparr>"

text \<open>
  A mint with one active hex keyset for \<open>sat\<close>, and a world in which every request
  fails with a network error; the examples override the answers they need.
\<close>

definition test_mint :: Mint where
  "test_mint = \<lparr>mint_url = ''https://mint.example'',
                 mint_keysets = Some [\<lparr>ks_id = ''00ad'', ks_unit = ''sat'', ks_active = True\<rparr>]\<rparr>"

definition network_error :: error where
  "network_error = Error ''Network Error''"

definition offline_env :: Env where
  "offline_env =
     \<lparr>wallet = greedy_wallet, activeUnit = ''sat'', activeMintUrl = ''https://mint.example'',
      activeMint = Inr test_mint, multiMints = [], overallBalance = 0, weights = [],
      createMeltQuote = (\<lambda>u p. Inl network_error),
      assertMintError = (\<lambda>r. None),
      checkMeltQuote = (\<lambda>q. Inl network_error),
      checkMintQuote = (\<lambda>q. Inl network_error),
      wallet_send = (\<lambda>a ps c. Inl network_error),
      wallet_mintProofs = (\<lambda>a h k c. Inl network_error),
      wallet_meltProofs = (\<lambda>q ps k c. Inl network_error),
      wallet_checkProofsStates = (\<lambda>ps. Inl network_error),
      hashToCurve = (\<lambda>s. ''Y'' @ s),
      serializeProofs = (\<lambda>ps. Some (concat (map secret ps))),
      currentDateStr = ''2024-01-01'',
      isUnloading = False,
      axios_get = (\<lambda>u. Inl network_error),
      bech32_decode = (\<lambda>a. Inl (Error ''invalid bech32''))\<rparr>"

text \<open>Scenario S7 of the spec: the LNURL host answers with \<open>min = max = 10000\<close> msat.\<close>

definition pay_request_10000 :: LnurlPay where
  "pay_request_10000 =
     \<lparr>lp_domain = [], lp_callback = ''https://example.com/cb'', lp_minSendable = 10000,
      lp_maxSendable = 10000, lp_tag = ''payRequest''\<rparr>"

definition lnurl_env :: Env where
  "lnurl_env = offline_env\<lparr>axios_get := (\<lambda>u. Inr pay_request_10000)\<rparr>"

text \<open>A session with the latch engaged, and one with a BOLT-11 request typed in.\<close>

definition latched_state :: WalletState where
  "latched_state = set_pay (\<lambda>d. d\<lparr>blocking := True\<rparr>) initial_state"

definition request_state :: WalletState where
  "request_state =
     set_pay (\<lambda>d. d\<lparr>input := (input d)\<lparr>inp_request := ''lnbc2u1example''\<rparr>,
                      invoice := Some \<lparr>inv_sat = 200, inv_memo = [], inv_bolt11 = ''lnbc2u1example''\<rparr>\<rparr>)
       initial_state"

definition quote_200 :: MeltQuoteResponse where
  "quote_200 = \<lparr>mq_quote = ''q1'', mq_amount = 200, mq_fee_reserve = 5, mq_state = UNPAID\<rparr>"

definition quoting_env :: Env where
  "quoting_env = offline_env\<lparr>createMeltQuote := (\<lambda>u p. Inr quote_200)\<rparr>"

text \<open>
  A wallet holding one unreserved proof of 4, and mints that answer the swap, the quote
  check or the minting with the ``outputs have already been signed'' error.
\<close>

definition funded_state :: WalletState where
  "funded_state = initial_state\<lparr>proofs := [proof4]\<rparr>"

definition signed_error :: error where
  "signed_error = Error ''outputs have already been signed''"

definition swap_signed_env :: Env where
  "swap_signed_env = offline_env\<lparr>wallet_send := (\<lambda>a ps c. Inl signed_error)\<rparr>"

definition check_signed_env :: Env where
  "check_signed_env = offline_env\<lparr>checkMintQuote := (\<lambda>q. Inl signed_error)\<rparr>"

definition mint_signed_env :: Env where
  "mint_signed_env = offline_env\<lparr>checkMintQuote := (\<lambda>q. Inr MINT_PAID),
                                  wallet_mintProofs := (\<lambda>a h k c. Inl signed_error)\<rparr>"

text \<open>
  A melt that is rolled back: the wallet holds one unreserved proof of 8 and a counter
  of 7 for the keyset, the quote asks for 6 with a fee reserve of 2, the melt request
  fails on the network and the re-queried quote is \<open>UNPAID\<close>.
\<close>

definition proof8u :: WalletProof where
  "proof8u = \<lparr> keyset = ''00ad'', amount = 8, secret = ''s8'', C = ''c8'',
               reserved = False, quote = None \<rparr>"

definition quote_6_2 :: MeltQuoteResponse where
  "quote_6_2 = \<lparr>mq_quote = ''q1'', mq_amount = 6, mq_fee_reserve = 2, mq_state = UNPAID\<rparr>"

definition melt_state :: WalletState where
  "melt_state =
     (set_pay (\<lambda>d. d\<lparr>input := (input d)\<lparr>inp_request := ''lnbc60n1example''\<rparr>,
                       invoice := Some \<lparr>inv_sat = 6, inv_memo = [], inv_bolt11 = ''lnbc60n1example''\<rparr>,
                       meltQuote_response := Some quote_6_2\<rparr>)
        initial_state)
       \<lparr>proofs := [proof8u], keysetCounters := [\<lparr>kc_id = ''00ad'', counter = 7\<rparr>]\<rparr>"

definition unpaid_env :: Env where
  "unpaid_env = offline_env\<lparr>checkMeltQuote := (\<lambda>q. Inr quote_6_2)\<rparr>"

text \<open>Mints for the multi-path examples.\<close>

definition mint_a :: Mint where
  "mint_a = \<lparr>mint_url = ''https://a.example'', mint_keysets = None\<rparr>"

definition mint_b :: Mint where
  "mint_b = \<lparr>mint_url = ''https://b.example'', mint_keysets = None\<rparr>"

definition mint_c :: Mint where
  "mint_c = \<lparr>mint_url = ''https://c.example'', mint_keysets = None\<rparr>"

text \<open>
  The weights of scenario S8 as the doubles nearest to 0.5, 0.3 and 0.2; they add up
  to exactly 1.
\<close>

definition weights_532 :: "rat list" where
  "weights_532 = [1 / 2, 5404319552844595 / 18014398509481984,
                  3602879701896397 / 18014398509481984]"

section \<open>Properties of the keyset counter store\<close>

lemma find_counter_append:
  "find_counter (cs @ ds) i =
     (case find_counter cs i of Some c \<Rightarrow> Some c | None \<Rightarrow> find_counter ds i)"
  by (induction cs) (auto simp: find_counter_def)

lemma find_counter_bump_first:
  "find_counter cs i = Some c \<Longrightarrow>
   find_counter (bump_first i by cs) i = Some (c\<lparr>counter := counter c + by\<rparr>)"
  by (induction cs) (auto simp: find_counter_def)

text \<open>
  Claim C9.  For a keyset id that has no entry, \<open>increaseKeysetCounter(id, by)\<close> appends
  the entry \<open>{id, counter: by}\<close>, so a following \<open>keysetCounter(id)\<close> returns \<open>by\<close>
  (negative when \<open>by\<close> is), while the same two operations in the other order leave and
  return \<open>1 + by\<close> after the read created the entry with 1: the value depends on which
  operation touched the id first.
\<close>

theorem increaseKeysetCounter_absent:
  assumes "find_counter cs i = None"
  shows "increaseKeysetCounter cs i by = cs @ [\<lparr>kc_id = i, counter = by\<rparr>]
    \<and> fst (keysetCounter (increaseKeysetCounter cs i by) i) = by
    \<and> (by < 0 \<longrightarrow> fst (keysetCounter (increaseKeysetCounter cs i by) i) < 0)
    \<and> fst (keysetCounter (increaseKeysetCounter (snd (keysetCounter cs i)) i by) i) = 1 + by
    \<and> fst (keysetCounter (increaseKeysetCounter (snd (keysetCounter cs i)) i by) i)
          \<noteq> fst (keysetCounter (increaseKeysetCounter cs i by) i)"
proof -
  let ?new = "\<lambda>n. \<lparr>kc_id = i, counter = n\<rparr>"
  have one: "find_counter [?new n] i = Some (?new n)" for n
    by (simp add: find_counter_def)
  have app: "find_counter (cs @ [?new n]) i = Some (?new n)" for n
    using assms one by (simp add: find_counter_append)
  have inc: "increaseKeysetCounter cs i by = cs @ [?new by]"
    using assms by (simp add: increaseKeysetCounter_def)
  have direct: "fst (keysetCounter (increaseKeysetCounter cs i by) i) = by"
    by (simp add: inc keysetCounter_def app)
  have rd: "snd (keysetCounter cs i) = cs @ [?new 1]"
    using assms by (simp add: keysetCounter_def)
  have bumped: "find_counter (bump_first i by (cs @ [?new 1])) i
          = Some ((?new 1)\<lparr>counter := counter (?new 1) + by\<rparr>)"
    by (rule find_counter_bump_first [OF app])
  have inc2: "increaseKeysetCounter (cs @ [?new 1]) i by = bump_first i by (cs @ [?new 1])"
    by (simp add: increaseKeysetCounter_def app)
  have "fst (keysetCounter (bump_first i by (cs @ [?new 1])) i) = 1 + by"
    unfolding keysetCounter_def bumped by simp
  then have later:
    "fst (keysetCounter (increaseKeysetCounter (snd (keysetCounter cs i)) i by) i) = 1 + by"
    unfolding rd inc2 .
  show ?thesis
    using inc direct later by simp
qed

theorem increaseKeysetCounter_absent_witness:
  "find_counter [\<lparr>kc_id = ''00aa'', counter = 7\<rparr>] ''00bb'' = None
   \<and> increaseKeysetCounter [\<lparr>kc_id = ''00aa'', counter = 7\<rparr>] ''00bb'' (- 3)
       = [\<lparr>kc_id = ''00aa'', counter = 7\<rparr>, \<lparr>kc_id = ''00bb'', counter = - 3\<rparr>]
   \<and> fst (keysetCounter
        (increaseKeysetCounter [\<lparr>kc_id = ''00aa'', counter = 7\<rparr>] ''00bb'' (- 3)) ''00bb'') = - 3
   \<and> fst (keysetCounter
        (increaseKeysetCounter
          (snd (keysetCounter [\<lparr>kc_id = ''00aa'', counter = 7\<rparr>] ''00bb'')) ''00bb'' (- 3))
        ''00bb'') = - 2"
proof -
  have h: "find_counter [\<lparr>kc_id = ''00aa'', counter = 7\<rparr>] ''00bb'' = None"
    by (simp add: find_counter_def)
  note t = increaseKeysetCounter_absent [OF h, of "- 3"]
  from t have a: "increaseKeysetCounter [\<lparr>kc_id = ''00aa'', counter = 7\<rparr>] ''00bb'' (- 3)
       = [\<lparr>kc_id = ''00aa'', counter = 7\<rparr>, \<lparr>kc_id = ''00bb'', counter = - 3\<rparr>]"
    by simp
  from t have b: "fst (keysetCounter
        (increaseKeysetCounter [\<lparr>kc_id = ''00aa'', counter = 7\<rparr>] ''00bb'' (- 3)) ''00bb'') = - 3"
    by blast
  from t have c: "fst (keysetCounter
        (increaseKeysetCounter
          (snd (keysetCounter [\<lparr>kc_id = ''00aa'', counter = 7\<rparr>] ''00bb'')) ''00bb'' (- 3))
        ''00bb'') = 1 + - 3"
    by blast
  show ?thesis
    using h a b c by (simp only:) simp
qed

section \<open>Properties of \<open>splitAmount\<close>\<close>

lemma mask_test: "i < 32 \<Longrightarrow> (to_int32 v AND (push_bit i 1 :: 32 word) \<noteq> 0) = bit v i"
  unfolding to_int32_def bit_iff_and_push_bit_not_eq_0 [symmetric]
  by (simp add: bit_word_of_int_iff)

text \<open>The loop, from index \<open>i\<close> on, appends the powers of the set bits among \<open>i..31\<close>.\<close>

lemma splitAmount_loop_eq:
  "i \<le> 32 \<Longrightarrow> splitAmount_loop i v chunks = chunks @ map (\<lambda>k. 2 ^ k) (filter (bit v) [i..<32])"
proof (induction i v chunks rule: splitAmount_loop.induct)
  case (1 i v chunks)
  show ?case
  proof (cases "i < 32")
    case True
    then have up: "[i..<32] = i # [i + 1..<32]"
      by (simp add: upt_conv_Cons)
    show ?thesis
    proof (cases "bit v i")
      case b: True
      have t: "to_int32 v AND (push_bit i 1 :: 32 word) \<noteq> 0"
        using mask_test [OF True, of v] b by blast
      have "splitAmount_loop i v chunks = splitAmount_loop (i + 1) v (chunks @ [2 ^ i])"
        using True t by (subst splitAmount_loop.simps) (simp add: Let_def)
      also have "\<dots> = (chunks @ [2 ^ i]) @ map (\<lambda>k. 2 ^ k) (filter (bit v) [i + 1..<32])"
        using "1.IH"(1) [OF True refl t] True by simp
      finally show ?thesis using b by (simp add: up)
    next
      case b: False
      have t: "\<not> to_int32 v AND (push_bit i 1 :: 32 word) \<noteq> 0"
        using mask_test [OF True, of v] b by blast
      have "splitAmount_loop i v chunks = splitAmount_loop (i + 1) v chunks"
        using True t by (subst splitAmount_loop.simps) (simp add: Let_def)
      also have "\<dots> = chunks @ map (\<lambda>k. 2 ^ k) (filter (bit v) [i + 1..<32])"
        using "1.IH"(2) [OF True refl t] True by simp
      finally show ?thesis using b by (simp add: up)
    qed
  next
    case False
    with "1.prems" have "i = 32" by simp
    then show ?thesis by (subst splitAmount_loop.simps) simp
  qed
qed

lemma splitAmount_eq: "splitAmount v = map (\<lambda>k. 2 ^ k) (filter (bit v) [0..<32])"
  by (simp add: splitAmount_def splitAmount_loop_eq)

lemma sum_bits: "sum_list (map (\<lambda>k. 2 ^ k) (filter (bit v) [0..<n])) = take_bit n (v::int)"
proof -
  have "sum_list (map (\<lambda>k. (2::int) ^ k) (filter (bit v) [0..<n]))
      = (\<Sum>k\<leftarrow>[0..<n]. of_bool (bit v k) * 2 ^ k)"
    by (induction n) simp_all
  also have "\<dots> = horner_sum of_bool 2 (map (bit v) [0..<n])"
    by (simp add: horner_sum_eq_sum sum_list_sum_nth atLeast0LessThan)
  also have "\<dots> = take_bit n v"
    by (rule horner_sum_bit_eq_take_bit)
  finally show ?thesis .
qed

text \<open>Only the low 32 bits of the value are seen: the chunks add up to \<open>v mod 2^32\<close>.\<close>

lemma splitAmount_sum: "sum_list (splitAmount v) = v mod 2 ^ 32"
  by (simp add: splitAmount_eq sum_bits take_bit_eq_mod)

lemma splitAmount_distinct: "distinct (splitAmount v)"
  by (simp add: splitAmount_eq distinct_map inj_on_def)

lemma splitAmount_set: "set (splitAmount v) = {2 ^ k | k. k < 32 \<and> bit v k}"
  by (auto simp: splitAmount_eq)

lemma bit_below_32: "0 \<le> v \<Longrightarrow> v < 2 ^ 32 \<Longrightarrow> bit (v::int) k \<Longrightarrow> k < 32"
  by (metis bit_take_bit_iff take_bit_int_eq_self)

text \<open>
  Claim C4, as stated, at the non-negative integer \<open>2^32 = 4294967296\<close>: no bit below
  32 is set, the loop pushes nothing, and the chunks do not add up to the value.
\<close>

theorem splitAmount_sum_counterexample:
  "(0::int) \<le> 4294967296 \<and> splitAmount 4294967296 = []
   \<and> sum_list (splitAmount 4294967296) \<noteq> 4294967296"
proof -
  have "sum_list (splitAmount 4294967296) = 0"
    by (simp add: splitAmount_sum)
  moreover have "splitAmount 4294967296 = []"
    by code_simp
  ultimately show ?thesis
    by simp
qed

text \<open>
  Claim C4, amended.  For every integer \<open>v\<close> with \<open>0 \<le> v < 2^32\<close>, the chunks
  returned by \<open>splitAmount v\<close> add up to \<open>v\<close>, no chunk occurs twice, every chunk is a
  power of two, and the chunks are exactly the powers \<open>2^k\<close> of the bits \<open>k\<close> set in
  \<open>v\<close>.
\<close>

theorem splitAmount_binary_decomposition:
  assumes "0 \<le> v" and "v < 2 ^ 32"
  shows "sum_list (splitAmount v) = v
    \<and> distinct (splitAmount v)
    \<and> (\<forall>c \<in> set (splitAmount v). \<exists>k. c = 2 ^ k)
    \<and> set (splitAmount v) = {2 ^ k | k. bit v k}"
proof -
  have "sum_list (splitAmount v) = v"
    using assms by (simp add: splitAmount_sum)
  moreover have "set (splitAmount v) = {2 ^ k | k. bit v k}"
    using bit_below_32 [OF assms] by (auto simp: splitAmount_set)
  moreover have "\<forall>c \<in> set (splitAmount v). \<exists>k. c = 2 ^ k"
    by (auto simp: splitAmount_set)
  ultimately show ?thesis
    by (simp add: splitAmount_distinct)
qed

theorem splitAmount_binary_decomposition_witness:
  "(0::int) \<le> 100 \<and> (100::int) < 2 ^ 32
   \<and> splitAmount 100 = [4, 32, 64]
   \<and> sum_list (splitAmount 100) = 100
   \<and> distinct (splitAmount 100)
   \<and> set (splitAmount 100) = {2 ^ k | k. bit (100::int) k}"
proof -
  have a: "(0::int) \<le> 100" and b: "(100::int) < 2 ^ 32"
    by simp_all
  have c: "splitAmount 100 = [4, 32, 64]"
    by code_simp
  show ?thesis
    using a b c splitAmount_binary_decomposition [OF a b] by simp
qed

section \<open>Properties of coin selection and of the spendable proofs\<close>

lemma foldl_amounts: "foldl (\<lambda>s t. s + amount t) a ps = a + sum_list (map amount ps)"
  by (induction ps arbitrary: a) simp_all

lemma reduce_amounts_sum: "reduce_amounts ps = sum_list (map amount ps)"
  by (simp add: reduce_amounts_def foldl_amounts)

text \<open>
  Claim C5.  \<open>coinSelect\<close> returns \<open>[]\<close> whenever the amounts of the input proofs add
  up to less than the requested amount, whatever the library's selector would answer;
  in particular the empty input yields \<open>[]\<close> for every positive amount (for an amount
  \<open>\<le> 0\<close> the empty input reaches the library's selector, and the result is \<open>[]\<close> when
  the selector picks nothing out of nothing).  Every proof of the result carries
  \<open>reserved = false\<close>.
\<close>

theorem coinSelect_insufficient_or_unreserved:
  "(sum_list (map amount ps) < amt \<longrightarrow> coinSelect lib ps amt includeFees = [])
   \<and> (0 < amt \<or> fst (selectProofsToSend lib [] amt includeFees) = []
        \<longrightarrow> coinSelect lib [] amt includeFees = [])
   \<and> (\<forall>p \<in> set (coinSelect lib ps amt includeFees). reserved p = False)"
  by (auto simp: coinSelect_def reduce_amounts_sum split: prod.splits)

theorem coinSelect_insufficient_or_unreserved_witness:
  "sum_list (map amount [proof8]) < 9
   \<and> coinSelect greedy_wallet [proof8] 9 False = []
   \<and> (0::int) < 9 \<and> coinSelect greedy_wallet [] 9 False = []
   \<and> coinSelect greedy_wallet [proof8] 5 False = [proof8\<lparr>reserved := False\<rparr>]
   \<and> reserved (hd (coinSelect greedy_wallet [proof8] 5 False)) = False"
proof -
  have a: "sum_list (map amount [proof8]) < 9"
    by (simp add: proof8_def)
  have b: "coinSelect greedy_wallet [proof8] 5 False = [proof8\<lparr>reserved := False\<rparr>]"
    by (simp add: coinSelect_def reduce_amounts_def greedy_wallet_def proof8_def)
  have c: "coinSelect greedy_wallet [proof8] 9 False = []"
    using a coinSelect_insufficient_or_unreserved [of "[proof8]" 9 greedy_wallet False]
    by blast
  have d: "coinSelect greedy_wallet [] 9 False = []"
    using coinSelect_insufficient_or_unreserved [of "[]" 9 greedy_wallet False]
    by simp
  have e: "reserved (hd (coinSelect greedy_wallet [proof8] 5 False)) = False"
    using coinSelect_insufficient_or_unreserved [of "[proof8]" 5 greedy_wallet False] b
    by simp
  show ?thesis
    using a b c d e by simp
qed

text \<open>
  Claim C6.  \<open>spendableProofs(P, a)\<close> throws exactly when the amounts of the unreserved
  proofs of \<open>P\<close> add up to less than \<open>a\<close>, the error is then \<open>Balance too low\<close>, and
  otherwise it returns the unreserved proofs of \<open>P\<close>, in their order.
\<close>

theorem spendableProofs_BalanceTooLow_iff:
  "(spendableProofs P a = Inl BalanceTooLow
      \<longleftrightarrow> sum_list (map amount (filter (\<lambda>p. \<not> reserved p) P)) < a)
   \<and> ((\<exists>e. spendableProofs P a = Inl e)
      \<longleftrightarrow> sum_list (map amount (filter (\<lambda>p. \<not> reserved p) P)) < a)
   \<and> (\<not> sum_list (map amount (filter (\<lambda>p. \<not> reserved p) P)) < a
      \<longrightarrow> spendableProofs P a = Inr (filter (\<lambda>p. \<not> reserved p) P))"
  by (simp add: spendableProofs_def getUnreservedProofs_def sumProofs_def Let_def)

theorem spendableProofs_BalanceTooLow_iff_witness:
  "spendableProofs [proof8, proof4] 5 = Inl BalanceTooLow
   \<and> sum_list (map amount (filter (\<lambda>p. \<not> reserved p) [proof8, proof4])) < 5
   \<and> \<not> sum_list (map amount (filter (\<lambda>p. \<not> reserved p) [proof8, proof4])) < 4
   \<and> spendableProofs [proof8, proof4] 4 = Inr [proof4]"
proof -
  have a: "sum_list (map amount (filter (\<lambda>p. \<not> reserved p) [proof8, proof4])) < 5"
    by (simp add: proof8_def proof4_def)
  have b: "\<not> sum_list (map amount (filter (\<lambda>p. \<not> reserved p) [proof8, proof4])) < 4"
    by (simp add: proof8_def proof4_def)
  have c: "filter (\<lambda>p. \<not> reserved p) [proof8, proof4] = [proof4]"
    by (simp add: proof8_def proof4_def)
  have d: "spendableProofs [proof8, proof4] 5 = Inl BalanceTooLow"
    using a spendableProofs_BalanceTooLow_iff [of "[proof8, proof4]" 5] by blast
  have e: "spendableProofs [proof8, proof4] 4 = Inr [proof4]"
    using b c spendableProofs_BalanceTooLow_iff [of "[proof8, proof4]" 4] by simp
  show ?thesis
    using a b d e by simp
qed

section \<open>The empty proof check\<close>

text \<open>
  Claim C10.  On the empty proof list \<open>checkProofsSpendable\<close> returns \<open>undefined\<close>
  (not the empty list of spent proofs), logs no request to the mint, and leaves the
  whole state, the proof store and the token history in particular, as it was, for
  either value of \<open>update_history\<close>.
\<close>

theorem checkProofsSpendable_empty:
  "checkProofsSpendable env [] update_history w = (Inr None, w)
   \<and> fst (checkProofsSpendable env [] update_history w) \<noteq> Inr (Some [])
   \<and> requests (snd (checkProofsSpendable env [] update_history w)) = requests w
   \<and> proofs (snd (checkProofsSpendable env [] update_history w)) = proofs w
   \<and> historyTokens (snd (checkProofsSpendable env [] update_history w)) = historyTokens w"
  by (simp add: checkProofsSpendable_def)

section \<open>The blocking latch of the melt quotes\<close>

lemma meltQuote_latched:
  "blocking (payInvoiceData w) \<Longrightarrow> meltQuote env w = (Inl AlreadyProcessingQuote, w)"
  by (simp add: meltQuote_def)

lemma meltQuote_unlatched:
  assumes "\<not> blocking (payInvoiceData w)"
  shows "\<not> blocking (payInvoiceData (snd (meltQuote env w)))"
    and "fst (meltQuote env w) = Inl e
          \<Longrightarrow> meltQuote_error (payInvoiceData (snd (meltQuote env w))) = Some e"
    and "fst (meltQuote env w) = Inr r
          \<Longrightarrow> meltQuote_error (payInvoiceData (snd (meltQuote env w))) = None
            \<and> meltQuote_response (payInvoiceData (snd (meltQuote env w))) = Some r"
  using assms
  by (auto simp: meltQuote_def meltQuote_try_def set_pay_def log_request_def Let_def
      split: sum.splits option.splits prod.splits if_splits)

lemma multiPathMeltQuotes_latched:
  "blocking (payInvoiceData w) \<Longrightarrow> multiPathMeltQuotes env w = (Inl AlreadyProcessingQuote, w)"
  by (simp add: multiPathMeltQuotes_def)

text \<open>Requesting the quotes writes the request log only.\<close>

lemma request_quotes_pay:
  "payInvoiceData (snd (request_quotes env pls rs w)) = payInvoiceData w"
  by (induction pls arbitrary: rs w)
     (auto simp: log_request_def Let_def split: sum.splits option.splits)

lemma multiPathMeltQuotes_try_ok:
  assumes "multiPathMeltQuotes_try env w = (Inr rs, w1)"
  shows "\<not> blocking (payInvoiceData w1)
       \<and> multiPartMeltQuotes_error (payInvoiceData w1) = multiPartMeltQuotes_error (payInvoiceData w)
       \<and> multiPartMeltQuotes_responses (payInvoiceData w1) = rs"
proof -
  from assms obtain pls w2 where
    rq: "request_quotes env pls []
           (set_pay (\<lambda>d. d\<lparr>multiPartMeltQuotes_payloads := pls\<rparr>) w) = (Inr rs, w2)"
    and w1: "w1 = set_pay (\<lambda>d. d\<lparr>multiPartMeltQuotes_responses := rs, blocking := False\<rparr>) w2"
    by (auto simp: multiPathMeltQuotes_try_def Let_def
        split: if_splits option.splits sum.splits prod.splits)
  have "payInvoiceData w2
          = payInvoiceData (set_pay (\<lambda>d. d\<lparr>multiPartMeltQuotes_payloads := pls\<rparr>) w)"
    using request_quotes_pay
      [of env pls "[]" "set_pay (\<lambda>d. d\<lparr>multiPartMeltQuotes_payloads := pls\<rparr>) w"] rq
    by simp
  then show ?thesis
    by (simp add: w1 set_pay_def)
qed

lemma multiPathMeltQuotes_unlatched:
  assumes "\<not> blocking (payInvoiceData w)"
  shows "\<not> blocking (payInvoiceData (snd (multiPathMeltQuotes env w)))"
    and "fst (multiPathMeltQuotes env w) = Inl e
          \<Longrightarrow> multiPartMeltQuotes_error (payInvoiceData (snd (multiPathMeltQuotes env w))) = Some e"
    and "fst (multiPathMeltQuotes env w) = Inr r
          \<Longrightarrow> multiPartMeltQuotes_error (payInvoiceData (snd (multiPathMeltQuotes env w))) = None
            \<and> multiPartMeltQuotes_responses (payInvoiceData (snd (multiPathMeltQuotes env w))) = r"
proof -
  let ?w0 = "set_pay (\<lambda>d. d\<lparr>blocking := True, multiPartMeltQuotes_error := None\<rparr>) w"
  obtain r1 w1 where t: "multiPathMeltQuotes_try env ?w0 = (r1, w1)"
    by (cases "multiPathMeltQuotes_try env ?w0")
  have m: "multiPathMeltQuotes env w =
      (case r1 of Inr rs \<Rightarrow> (Inr rs, w1)
       | Inl e \<Rightarrow> (Inl e, set_pay (\<lambda>d. d\<lparr>blocking := False,
                                          multiPartMeltQuotes_error := Some e\<rparr>) w1))"
    using assms t by (simp add: multiPathMeltQuotes_def Let_def split: sum.splits)
  have ok: "\<not> blocking (payInvoiceData w1)
              \<and> multiPartMeltQuotes_error (payInvoiceData w1) = None
              \<and> multiPartMeltQuotes_responses (payInvoiceData w1) = rs" if "r1 = Inr rs" for rs
    using multiPathMeltQuotes_try_ok [of env ?w0 rs w1] t that by (simp add: set_pay_def)
  show "\<not> blocking (payInvoiceData (snd (multiPathMeltQuotes env w)))"
    using m ok by (cases r1) (auto simp: set_pay_def)
  show "fst (multiPathMeltQuotes env w) = Inl e
          \<Longrightarrow> multiPartMeltQuotes_error (payInvoiceData (snd (multiPathMeltQuotes env w))) = Some e"
    using m by (cases r1) (auto simp: set_pay_def)
  show "fst (multiPathMeltQuotes env w) = Inr r
          \<Longrightarrow> multiPartMeltQuotes_error (payInvoiceData (snd (multiPathMeltQuotes env w))) = None
            \<and> multiPartMeltQuotes_responses (payInvoiceData (snd (multiPathMeltQuotes env w))) = r"
    using m ok by (cases r1) (auto simp: set_pay_def)
qed

text \<open>
  Claim C7.  With the latch engaged, \<open>meltQuote\<close> and \<open>multiPathMeltQuotes\<close> throw
  \<open>already processing an melt quote.\<close> and leave the state as it was: no request is
  logged and nothing is written.  On every other run the latch is off when the call
  completes, a thrown error is the one stored in the session's error field, and a
  returned answer is stored as the response with the error field cleared.
\<close>

theorem melt_quote_blocking_latch:
  "(blocking (payInvoiceData w) \<longrightarrow>
      meltQuote env w = (Inl AlreadyProcessingQuote, w)
    \<and> requests (snd (meltQuote env w)) = requests w
    \<and> multiPathMeltQuotes env w = (Inl AlreadyProcessingQuote, w)
    \<and> requests (snd (multiPathMeltQuotes env w)) = requests w)
   \<and> (\<not> blocking (payInvoiceData w) \<longrightarrow>
      \<not> blocking (payInvoiceData (snd (meltQuote env w)))
    \<and> (\<forall>e. fst (meltQuote env w) = Inl e
          \<longrightarrow> meltQuote_error (payInvoiceData (snd (meltQuote env w))) = Some e)
    \<and> (\<forall>r. fst (meltQuote env w) = Inr r
          \<longrightarrow> meltQuote_error (payInvoiceData (snd (meltQuote env w))) = None
            \<and> meltQuote_response (payInvoiceData (snd (meltQuote env w))) = Some r)
    \<and> \<not> blocking (payInvoiceData (snd (multiPathMeltQuotes env w)))
    \<and> (\<forall>e. fst (multiPathMeltQuotes env w) = Inl e
          \<longrightarrow> multiPartMeltQuotes_error (payInvoiceData (snd (multiPathMeltQuotes env w)))
              = Some e)
    \<and> (\<forall>r. fst (multiPathMeltQuotes env w) = Inr r
          \<longrightarrow> multiPartMeltQuotes_error (payInvoiceData (snd (multiPathMeltQuotes env w))) = None
            \<and> multiPartMeltQuotes_responses (payInvoiceData (snd (multiPathMeltQuotes env w)))
                = r))"
proof (intro conjI impI allI)
  assume b: "blocking (payInvoiceData w)"
  show "meltQuote env w = (Inl AlreadyProcessingQuote, w)"
    by (rule meltQuote_latched [OF b])
  then show "requests (snd (meltQuote env w)) = requests w"
    by simp
  show "multiPathMeltQuotes env w = (Inl AlreadyProcessingQuote, w)"
    by (rule multiPathMeltQuotes_latched [OF b])
  then show "requests (snd (multiPathMeltQuotes env w)) = requests w"
    by simp
next
  assume nb: "\<not> blocking (payInvoiceData w)"
  show "\<not> blocking (payInvoiceData (snd (meltQuote env w)))"
    by (rule meltQuote_unlatched(1) [OF nb])
  show "\<not> blocking (payInvoiceData (snd (multiPathMeltQuotes env w)))"
    by (rule multiPathMeltQuotes_unlatched(1) [OF nb])
next
  fix e
  assume nb: "\<not> blocking (payInvoiceData w)" and f: "fst (meltQuote env w) = Inl e"
  show "meltQuote_error (payInvoiceData (snd (meltQuote env w))) = Some e"
    by (rule meltQuote_unlatched(2) [OF nb f])
next
  fix r
  assume nb: "\<not> blocking (payInvoiceData w)" and f: "fst (meltQuote env w) = Inr r"
  show "meltQuote_error (payInvoiceData (snd (meltQuote env w))) = None"
    and "meltQuote_response (payInvoiceData (snd (meltQuote env w))) = Some r"
    using meltQuote_unlatched(3) [OF nb f] by simp_all
next
  fix e
  assume nb: "\<not> blocking (payInvoiceData w)" and f: "fst (multiPathMeltQuotes env w) = Inl e"
  show "multiPartMeltQuotes_error (payInvoiceData (snd (multiPathMeltQuotes env w))) = Some e"
    by (rule multiPathMeltQuotes_unlatched(2) [OF nb f])
next
  fix r
  assume nb: "\<not> blocking (payInvoiceData w)" and f: "fst (multiPathMeltQuotes env w) = Inr r"
  show "multiPartMeltQuotes_error (payInvoiceData (snd (multiPathMeltQuotes env w))) = None"
    and "multiPartMeltQuotes_responses (payInvoiceData (snd (multiPathMeltQuotes env w))) = r"
    using multiPathMeltQuotes_unlatched(3) [OF nb f] by simp_all
qed

theorem melt_quote_blocking_latch_witness:
  "blocking (payInvoiceData latched_state)
   \<and> meltQuote quoting_env latched_state = (Inl AlreadyProcessingQuote, latched_state)
   \<and> multiPathMeltQuotes quoting_env latched_state = (Inl AlreadyProcessingQuote, latched_state)
   \<and> \<not> blocking (payInvoiceData request_state)
   \<and> fst (meltQuote offline_env request_state) = Inl network_error
   \<and> \<not> blocking (payInvoiceData (snd (meltQuote offline_env request_state)))
   \<and> meltQuote_error (payInvoiceData (snd (meltQuote offline_env request_state)))
       = Some network_error
   \<and> fst (meltQuote quoting_env request_state) = Inr quote_200
   \<and> \<not> blocking (payInvoiceData (snd (meltQuote quoting_env request_state)))
   \<and> meltQuote_error (payInvoiceData (snd (meltQuote quoting_env request_state))) = None
   \<and> fst (multiPathMeltQuotes offline_env request_state)
       = Inl (Error ''no mint supports multi-part payments'')
   \<and> \<not> blocking (payInvoiceData (snd (multiPathMeltQuotes offline_env request_state)))
   \<and> multiPartMeltQuotes_error (payInvoiceData (snd (multiPathMeltQuotes offline_env request_state)))
       = Some (Error ''no mint supports multi-part payments'')"
proof -
  have l: "blocking (payInvoiceData latched_state)"
    by code_simp
  have u: "\<not> blocking (payInvoiceData request_state)"
    by code_simp
  have f1: "fst (meltQuote offline_env request_state) = Inl network_error"
    by code_simp
  have f2: "fst (meltQuote quoting_env request_state) = Inr quote_200"
    by code_simp
  have f3: "fst (multiPathMeltQuotes offline_env request_state)
              = Inl (Error ''no mint supports multi-part payments'')"
    by code_simp
  note latched = melt_quote_blocking_latch [of latched_state quoting_env]
  note off = melt_quote_blocking_latch [of request_state offline_env]
  note quoting = melt_quote_blocking_latch [of request_state quoting_env]
  have a: "meltQuote quoting_env latched_state = (Inl AlreadyProcessingQuote, latched_state)"
    and b: "multiPathMeltQuotes quoting_env latched_state
              = (Inl AlreadyProcessingQuote, latched_state)"
    using latched l by blast+
  have c: "\<not> blocking (payInvoiceData (snd (meltQuote offline_env request_state)))"
    and d: "meltQuote_error (payInvoiceData (snd (meltQuote offline_env request_state)))
              = Some network_error"
    and g: "\<not> blocking (payInvoiceData (snd (multiPathMeltQuotes offline_env request_state)))"
    and h: "multiPartMeltQuotes_error
              (payInvoiceData (snd (multiPathMeltQuotes offline_env request_state)))
              = Some (Error ''no mint supports multi-part payments'')"
    using off u f1 f3 by blast+
  have i: "\<not> blocking (payInvoiceData (snd (meltQuote quoting_env request_state)))"
    and j: "meltQuote_error (payInvoiceData (snd (meltQuote quoting_env request_state))) = None"
    using quoting u f2 by blast+
  show ?thesis
    using l u f1 f2 f3 a b c d g h i j by blast
qed

section \<open>The LNURL amount\<close>

text \<open>
  Whenever the first LNURL step stores a \<open>payRequest\<close> and returns, the input of the
  session is the empty input: the amount set for \<open>min = max\<close> is overwritten by the
  reset of \<open>input\<close> two statements later.
\<close>

lemma lnurl_store_resets_input:
  assumes "lnurl_store host data w = (Inr (), w')" and "lp_tag data = ''payRequest''"
  shows "input (payInvoiceData w') = empty_input"
  using assms
  by (auto simp: lnurl_store_def set_pay_def Let_def split: option.splits if_splits)

text \<open>
  Claim C2 at the input of scenario S7: the address \<open>alice@example.com\<close>, whose host
  answers \<open>{tag: "payRequest", minSendable: 10000, maxSendable: 10000}\<close>.  The call
  returns, \<open>maxSendable / 1000\<close> is 10, and the amount of the session's input is
  \<open>null\<close>, not 10.
\<close>

theorem lnurlPayFirst_amount_is_null:
  "fst (lnurlPayFirst lnurl_env ''alice@example.com'' initial_state) = Inr ()
   \<and> axios_get lnurl_env ''https://example.com/.well-known/lnurlp/alice'' = Inr pay_request_10000
   \<and> lp_tag pay_request_10000 = ''payRequest''
   \<and> lp_minSendable pay_request_10000 = lp_maxSendable pay_request_10000
   \<and> js_div (lp_maxSendable pay_request_10000) 1000 = Some 10
   \<and> inp_amount (input (payInvoiceData
        (snd (lnurlPayFirst lnurl_env ''alice@example.com'' initial_state)))) = None"
proof -
  have "fst (lnurlPayFirst lnurl_env ''alice@example.com'' initial_state) = Inr ()"
    by code_simp
  moreover have "axios_get lnurl_env ''https://example.com/.well-known/lnurlp/alice''
      = Inr pay_request_10000"
    by (simp add: lnurl_env_def)
  moreover have "js_div (lp_maxSendable pay_request_10000) 1000 = Some 10"
    by code_simp
  moreover have "inp_amount (input (payInvoiceData
        (snd (lnurlPayFirst lnurl_env ''alice@example.com'' initial_state)))) = None"
    by code_simp
  ultimately show ?thesis
    by (simp add: pay_request_10000_def)
qed

section \<open>The counter jump on ``outputs have already been signed''\<close>

lemma find_counter_snoc:
  "find_counter (cs @ [c]) i =
     (case find_counter cs i of Some x \<Rightarrow> Some x | None \<Rightarrow> if kc_id c = i then Some c else None)"
  by (induction cs) (auto simp: find_counter_def)

lemma counter_value_read [simp]: "counter_value (snd (read_counter i w)) i = counter_value w i"
  by (auto simp: counter_value_def read_counter_def keysetCounter_def find_counter_snoc
      split: option.splits prod.splits)

lemma read_counter_present: "find_counter (keysetCounters (snd (read_counter i w))) i \<noteq> None"
  by (auto simp: read_counter_def keysetCounter_def find_counter_snoc
      split: option.splits prod.splits)

lemma counter_value_bump_present:
  "find_counter (keysetCounters w) i \<noteq> None \<Longrightarrow>
   counter_value (bump_counter i by w) i = counter_value w i + by"
  by (auto simp: counter_value_def bump_counter_def increaseKeysetCounter_def keysetCounter_def
      find_counter_bump_first split: option.splits)

lemma counter_value_bump_absent:
  "find_counter (keysetCounters w) i = None \<Longrightarrow>
   counter_value (bump_counter i by w) i = by \<and> counter_value w i = 1"
  by (auto simp: counter_value_def bump_counter_def increaseKeysetCounter_def keysetCounter_def
      find_counter_snoc split: option.splits)

lemma bump_counter_present:
  "find_counter (keysetCounters w) i \<noteq> None \<Longrightarrow> find_counter (keysetCounters (bump_counter i by w)) i \<noteq> None"
  by (auto simp: bump_counter_def increaseKeysetCounter_def find_counter_bump_first)

text \<open>What the other operations leave alone.\<close>

lemma frames_counters [simp]:
  "keysetCounters (log_request r w) = keysetCounters w"
  "keysetCounters (setReserved ps b q w) = keysetCounters w"
  "keysetCounters (addProofs ps w) = keysetCounters w"
  "keysetCounters (removeProofs ps w) = keysetCounters w"
  "keysetCounters (addPaidToken env a s w) = keysetCounters w"
  "keysetCounters (set_pay f w) = keysetCounters w"
  by (simp_all add: log_request_def setReserved_def addProofs_def removeProofs_def
      addPaidToken_def set_pay_def)

lemma counter_value_frames [simp]:
  "counter_value (log_request r w) i = counter_value w i"
  "counter_value (setReserved ps b q w) i = counter_value w i"
  by (simp_all add: counter_value_def)

lemma frames_atoms [simp]:
  "proof_atoms (log_request r w) = proof_atoms w"
  "proof_atoms (setReserved ps b q w) = proof_atoms w"
  "proof_atoms (bump_counter i by w) = proof_atoms w"
  "proof_atoms (snd (read_counter i w)) = proof_atoms w"
  by (simp_all add: proof_atoms_def log_request_def setReserved_def bump_counter_def
      read_counter_def o_def split: prod.splits)

lemma not_signed_fixed [simp]:
  "\<not> outputs_already_signed BalanceTooLow"
  "\<not> outputs_already_signed (Error ''invoice not paid yet.'')"
  "\<not> outputs_already_signed (Error ''could not serialize proofs.'')"
  "\<not> outputs_already_signed (ThrownString s)"
  "\<not> outputs_already_signed (TypeError ''Cannot read properties of undefined (reading includes)'')"
  by (simp_all add: outputs_already_signed_def BalanceTooLow_def outputs_signed_phrase_def startsWith_def)

text \<open>A rethrown error that passes the probe is the caught one, and the probe has added 10.\<close>

lemma probe_signed:
  assumes "probe_and_rethrow k err w = (thrown, w')" "outputs_already_signed thrown"
  shows "thrown = err \<and> w' = bump_counter k 10 w"
  using assms
  by (auto simp: probe_and_rethrow_def handleOutputsHaveAlreadyBeenSignedError_def
      outputs_already_signed_def outputs_signed_phrase_def startsWith_def
      split: option.splits if_splits)


text \<open>Where the \<open>try\<close> block of \<open>send\<close> can fail.\<close>

lemma send_try_fail:
  assumes "send_try env k ps amt ivd inc w = (Inl (e, pts), w1)"
  shows "(e = BalanceTooLow \<and> w1 = w)
       \<or> (\<exists>t. w1 = log_request (SwapRequest t) (snd (read_counter k w)))"
  using assms
  by (auto simp: send_try_def send_finish_def Let_def spendableProofs_def
      split: sum.splits if_splits prod.splits)

lemma send_signed:
  assumes "send env ps amt ivd inc w = (Inl e, w')" and "outputs_already_signed e"
    and "getKeyset env = Inr k"
  shows "counter_value w' k = counter_value w k + 10 \<and> proof_atoms w' = proof_atoms w"
proof -
  from assms(1,3) obtain err pts w1 thrown w3 where
    t: "send_try env k ps amt ivd inc w = (Inl (err, pts), w1)"
    and p: "probe_and_rethrow k err (setReserved pts False None w1) = (thrown, w3)"
    and r: "e = thrown" "w' = w3"
    by (auto simp: send_def Let_def split: sum.splits prod.splits)
  from probe_signed [OF p] assms(2) r
  have e: "e = err" and w': "w' = bump_counter k 10 (setReserved pts False None w1)"
    by simp_all
  from send_try_fail [OF t] assms(2) e
  obtain t where w1: "w1 = log_request (SwapRequest t) (snd (read_counter k w))"
    by auto
  have pres: "find_counter (keysetCounters (setReserved pts False None w1)) k \<noteq> None"
    by (simp add: w1 read_counter_present)
  show ?thesis
    using counter_value_bump_present [OF pres, of 10]
    by (simp add: w' w1)
qed

text \<open>Where the \<open>try\<close> block of \<open>mint\<close> can fail with the signed error.\<close>

lemma mint_try_fail:
  assumes "mint_try env k amt hash w = (Inl e, w1)" and "outputs_already_signed e"
    and "activeMint env = Inr m"
  shows "(checkMintQuote env hash = Inl e \<and> w1 = log_request (CheckMintQuote hash) w)
       \<or> (checkMintQuote env hash = Inr MINT_PAID
           \<and> w1 = log_request (MintProofsRequest hash)
                  (snd (read_counter k (log_request (CheckMintQuote hash) w))))"
  using assms
  by (auto simp: mint_try_def Let_def split: sum.splits if_splits prod.splits option.splits)

lemma getKeyset_activeMint: "getKeyset env = Inr k \<Longrightarrow> \<exists>m. activeMint env = Inr m"
  by (auto simp: getKeyset_def split: sum.splits)

lemma mint_signed:
  assumes "mint env amt hash w = (Inl e, w')" and "outputs_already_signed e"
    and "getKeyset env = Inr k"
  shows "proof_atoms w' = proof_atoms w"
    and "find_counter (keysetCounters w) k \<noteq> None \<or> checkMintQuote env hash = Inr MINT_PAID
          \<Longrightarrow> counter_value w' k = counter_value w k + 10"
    and "find_counter (keysetCounters w) k = None \<Longrightarrow> checkMintQuote env hash \<noteq> Inr MINT_PAID
          \<Longrightarrow> counter_value w' k = 10 \<and> counter_value w k = 1"
proof -
  from assms(1,3) obtain err w1 thrown w2 where
    t: "mint_try env k amt hash w = (Inl err, w1)"
    and p: "probe_and_rethrow k err w1 = (thrown, w2)"
    and r: "e = thrown" "w' = w2"
    by (auto simp: mint_def Let_def split: sum.splits prod.splits)
  from probe_signed [OF p] assms(2) r
  have e: "e = err" and w': "w' = bump_counter k 10 w1"
    by simp_all
  obtain m where m: "activeMint env = Inr m"
    using getKeyset_activeMint [OF assms(3)] by blast
  note cases = mint_try_fail [OF t _ m]
  have c: "(checkMintQuote env hash = Inl e \<and> w1 = log_request (CheckMintQuote hash) w)
       \<or> (checkMintQuote env hash = Inr MINT_PAID
           \<and> w1 = log_request (MintProofsRequest hash)
                  (snd (read_counter k (log_request (CheckMintQuote hash) w))))"
    using cases assms(2) e by simp
  show "proof_atoms w' = proof_atoms w"
    using c by (auto simp: w')
  show "counter_value w' k = counter_value w k + 10"
    if "find_counter (keysetCounters w) k \<noteq> None \<or> checkMintQuote env hash = Inr MINT_PAID"
  proof -
    have pres: "find_counter (keysetCounters w1) k \<noteq> None"
      using c that read_counter_present [of k "log_request (CheckMintQuote hash) w"] by auto
    have "counter_value w1 k = counter_value w k"
      using c by auto
    then show ?thesis
      using counter_value_bump_present [OF pres, of 10] by (simp add: w')
  qed
  show "counter_value w' k = 10 \<and> counter_value w k = 1"
    if "find_counter (keysetCounters w) k = None" "checkMintQuote env hash \<noteq> Inr MINT_PAID"
  proof -
    have w1: "w1 = log_request (CheckMintQuote hash) w"
      using c that by auto
    show ?thesis
      using counter_value_bump_absent [of "log_request (CheckMintQuote hash) w" k 10] that
      by (simp add: w' w1)
  qed
qed


text \<open>
  Claim C8, as stated, for a keyset that has no counter entry yet: a \<open>mint\<close> call
  whose quote check fails with the error ends with the counter at 10, one whose minting
  request fails with it ends with the counter at 11 (the read before the request has
  created the entry with 1).  Both start from the same state, where \<open>keysetCounter\<close>
  would return 1, so the first does not increase the counter by exactly 10.
\<close>

theorem signed_error_jump_counterexample:
  "getKeyset check_signed_env = Inr ''00ad''
   \<and> getKeyset mint_signed_env = Inr ''00ad''
   \<and> find_counter (keysetCounters funded_state) ''00ad'' = None
   \<and> outputs_already_signed signed_error
   \<and> fst (mint check_signed_env 100 ''q1'' funded_state) = Inl signed_error
   \<and> fst (mint mint_signed_env 100 ''q1'' funded_state) = Inl signed_error
   \<and> counter_value funded_state ''00ad'' = 1
   \<and> counter_value (snd (mint check_signed_env 100 ''q1'' funded_state)) ''00ad'' = 10
   \<and> counter_value (snd (mint mint_signed_env 100 ''q1'' funded_state)) ''00ad'' = 11
   \<and> counter_value (snd (mint check_signed_env 100 ''q1'' funded_state)) ''00ad''
       \<noteq> counter_value funded_state ''00ad'' + 10"
proof -
  have "getKeyset check_signed_env = Inr ''00ad''"
    and "getKeyset mint_signed_env = Inr ''00ad''"
    and "find_counter (keysetCounters funded_state) ''00ad'' = None"
    and "outputs_already_signed signed_error"
    and "fst (mint check_signed_env 100 ''q1'' funded_state) = Inl signed_error"
    and "fst (mint mint_signed_env 100 ''q1'' funded_state) = Inl signed_error"
    and "counter_value funded_state ''00ad'' = 1"
    and "counter_value (snd (mint check_signed_env 100 ''q1'' funded_state)) ''00ad'' = 10"
    and "counter_value (snd (mint mint_signed_env 100 ''q1'' funded_state)) ''00ad'' = 11"
    by code_simp+
  then show ?thesis
    by simp
qed

text \<open>
  Claim C8, amended.  Let \<open>k\<close> be the keyset \<open>getKeyset\<close> selects.  A \<open>send\<close> call that
  fails with an error whose message contains ``outputs have already been signed''
  leaves the counter of \<open>k\<close> exactly 10 above its value at the start of the call (1
  for a keyset without an entry), and so does a \<open>mint\<close> call when \<open>k\<close> has a counter
  entry at the start or the quote check has answered \<open>PAID\<close> (the error then comes
  from the minting request, after the counter was read).  A \<open>mint\<close> call that fails
  this way at the quote check, on a keyset with no entry, creates the entry with
  counter 10.  In every case the failing call adds no proof to the store and removes
  none.
\<close>

theorem signed_error_counter_jump:
  assumes "getKeyset env = Inr k"
  shows "(send env ps amt invalidate includeFees w = (Inl e, w') \<and> outputs_already_signed e
            \<longrightarrow> counter_value w' k = counter_value w k + 10 \<and> proof_atoms w' = proof_atoms w)
       \<and> (mint env amt hash w = (Inl e, w') \<and> outputs_already_signed e
            \<longrightarrow> proof_atoms w' = proof_atoms w
              \<and> (find_counter (keysetCounters w) k \<noteq> None
                    \<or> checkMintQuote env hash = Inr MINT_PAID
                  \<longrightarrow> counter_value w' k = counter_value w k + 10)
              \<and> (find_counter (keysetCounters w) k = None
                    \<and> checkMintQuote env hash \<noteq> Inr MINT_PAID
                  \<longrightarrow> counter_value w' k = 10 \<and> counter_value w k = 1))"
proof (intro conjI impI)
  assume "send env ps amt invalidate includeFees w = (Inl e, w') \<and> outputs_already_signed e"
  then have s: "send env ps amt invalidate includeFees w = (Inl e, w')"
    and o: "outputs_already_signed e"
    by simp_all
  show "counter_value w' k = counter_value w k + 10" and "proof_atoms w' = proof_atoms w"
    using send_signed [OF s o assms] by simp_all
next
  assume "mint env amt hash w = (Inl e, w') \<and> outputs_already_signed e"
  then have m: "mint env amt hash w = (Inl e, w')" and o: "outputs_already_signed e"
    by simp_all
  show "proof_atoms w' = proof_atoms w"
    by (rule mint_signed(1) [OF m o assms])
  show "counter_value w' k = counter_value w k + 10"
    if "find_counter (keysetCounters w) k \<noteq> None \<or> checkMintQuote env hash = Inr MINT_PAID"
    by (rule mint_signed(2) [OF m o assms that])
  show "counter_value w' k = 10" and "counter_value w k = 1"
    if "find_counter (keysetCounters w) k = None \<and> checkMintQuote env hash \<noteq> Inr MINT_PAID"
    using mint_signed(3) [OF m o assms] that by simp_all
qed

theorem signed_error_counter_jump_witness:
  "getKeyset swap_signed_env = Inr ''00ad''
   \<and> getKeyset mint_signed_env = Inr ''00ad''
   \<and> outputs_already_signed signed_error
   \<and> fst (send swap_signed_env [proof4] 3 False False funded_state) = Inl signed_error
   \<and> counter_value (snd (send swap_signed_env [proof4] 3 False False funded_state)) ''00ad''
       = counter_value funded_state ''00ad'' + 10
   \<and> proof_atoms (snd (send swap_signed_env [proof4] 3 False False funded_state))
       = proof_atoms funded_state
   \<and> checkMintQuote mint_signed_env ''q1'' = Inr MINT_PAID
   \<and> fst (mint mint_signed_env 100 ''q1'' funded_state) = Inl signed_error
   \<and> counter_value (snd (mint mint_signed_env 100 ''q1'' funded_state)) ''00ad''
       = counter_value funded_state ''00ad'' + 10
   \<and> proof_atoms (snd (mint mint_signed_env 100 ''q1'' funded_state)) = proof_atoms funded_state"
proof -
  have k1: "getKeyset swap_signed_env = Inr ''00ad''"
    and k2: "getKeyset mint_signed_env = Inr ''00ad''"
    and sg: "outputs_already_signed signed_error"
    and f1: "fst (send swap_signed_env [proof4] 3 False False funded_state) = Inl signed_error"
    and f2: "fst (mint mint_signed_env 100 ''q1'' funded_state) = Inl signed_error"
    and cq: "checkMintQuote mint_signed_env ''q1'' = Inr MINT_PAID"
    by code_simp+
  have s: "send swap_signed_env [proof4] 3 False False funded_state
      = (Inl signed_error, snd (send swap_signed_env [proof4] 3 False False funded_state))"
    using f1 by (simp add: prod_eq_iff)
  have m: "mint mint_signed_env 100 ''q1'' funded_state
      = (Inl signed_error, snd (mint mint_signed_env 100 ''q1'' funded_state))"
    using f2 by (simp add: prod_eq_iff)
  have a: "counter_value (snd (send swap_signed_env [proof4] 3 False False funded_state)) ''00ad''
             = counter_value funded_state ''00ad'' + 10
           \<and> proof_atoms (snd (send swap_signed_env [proof4] 3 False False funded_state))
             = proof_atoms funded_state"
    using signed_error_counter_jump [OF k1, where ps = "[proof4]" and amt = 3
        and invalidate = False and includeFees = False and w = funded_state and e = signed_error
        and w' = "snd (send swap_signed_env [proof4] 3 False False funded_state)"] s sg
    by blast
  have b: "counter_value (snd (mint mint_signed_env 100 ''q1'' funded_state)) ''00ad''
             = counter_value funded_state ''00ad'' + 10
           \<and> proof_atoms (snd (mint mint_signed_env 100 ''q1'' funded_state))
             = proof_atoms funded_state"
    using signed_error_counter_jump [OF k2, where amt = 100 and hash = "''q1''"
        and w = funded_state and e = signed_error
        and w' = "snd (mint mint_signed_env 100 ''q1'' funded_state)"] m sg cq
    by blast
  show ?thesis
    using k1 k2 sg f1 f2 cq a b by blast
qed

section \<open>The rollback of a failed melt\<close>

lemma counters_history_frames [simp]:
  "keysetCounters (removeOutgoingInvoiceFromHistory q w) = keysetCounters w"
  "keysetCounters (addOutgoingPendingInvoiceToHistory env mq sp w) = keysetCounters w"
  by (simp_all add: removeOutgoingInvoiceFromHistory_def addOutgoingPendingInvoiceToHistory_def
      Let_def)

lemma counter_value_cong: "keysetCounters w = keysetCounters v \<Longrightarrow> counter_value w i = counter_value v i"
  by (simp add: counter_value_def)

lemma find_counter_cong: "keysetCounters w = keysetCounters v \<Longrightarrow> find_counter (keysetCounters w) i = find_counter (keysetCounters v) i"
  by simp

text \<open>The counter after the speculative bumps of the try block.\<close>

lemma melt_try_fail:
  assumes "melt_try env q k sp amt w = (Inl (e, inc), w1)"
  shows "inc = (if mq_fee_reserve q > 0 then countChangeOutputs (mq_fee_reserve q) else 0)
       \<and> counter_value w1 k = counter_value w k + int (length sp) + inc
       \<and> find_counter (keysetCounters w1) k \<noteq> None
       \<and> invoiceHistory w1 = invoiceHistory (addOutgoingPendingInvoiceToHistory env q sp w)
       \<and> proofs w1 = proofs (setReserved sp True (Some (mq_quote q)) w)"
proof -
  let ?w1 = "addOutgoingPendingInvoiceToHistory env q sp w"
  let ?w2 = "snd (read_counter k ?w1)"
  let ?w3 = "bump_counter k (int (length sp)) ?w2"
  let ?inc = "if mq_fee_reserve q > 0 then countChangeOutputs (mq_fee_reserve q) else 0"
  let ?w4 = "if mq_fee_reserve q > 0 then bump_counter k (countChangeOutputs (mq_fee_reserve q)) ?w3 else ?w3"
  have w1: "w1 = log_request (MeltProofsRequest (mq_quote q)) ?w4" and inc: "inc = ?inc"
    using assms
    by (auto simp: melt_try_def Let_def split: prod.splits sum.splits if_splits)
  have p2: "find_counter (keysetCounters ?w2) k \<noteq> None"
    by (rule read_counter_present)
  have c2: "counter_value ?w2 k = counter_value w k"
    by (simp add: counter_value_cong [of ?w1 w])
  have p3: "find_counter (keysetCounters ?w3) k \<noteq> None"
    by (rule bump_counter_present [OF p2])
  have c3: "counter_value ?w3 k = counter_value w k + int (length sp)"
    using counter_value_bump_present [OF p2] c2 by simp
  have p4: "find_counter (keysetCounters ?w4) k \<noteq> None"
    using p3 bump_counter_present [OF p3] by simp
  have c4: "counter_value ?w4 k = counter_value w k + int (length sp) + ?inc"
    using counter_value_bump_present [OF p3] c3 by simp
  have h: "invoiceHistory ?w4 = invoiceHistory ?w1" "proofs ?w4 = proofs ?w1"
    by (simp_all add: bump_counter_def read_counter_def split: prod.splits)
  show ?thesis
    using p4 c4 h
    by (simp add: w1 inc counter_value_def log_request_def addOutgoingPendingInvoiceToHistory_def Let_def)
qed

lemma remove_first_quote_snoc:
  "find (\<lambda>i. ih_quote i = q) xs = None \<Longrightarrow> ih_quote x = q
     \<Longrightarrow> remove_first_quote q (xs @ [x]) = xs"
  by (induction xs) (auto split: if_splits)

lemma length_remove_first_quote:
  "length (filter (\<lambda>i. ih_quote i = q) (remove_first_quote q xs))
     = length (filter (\<lambda>i. ih_quote i = q) xs) - 1"
  by (induction xs) auto

lemma probe_counter:
  assumes "probe_and_rethrow k err w = (thrown, w')"
    and "find_counter (keysetCounters w) k \<noteq> None"
  shows "counter_value w' k = counter_value w k + (if outputs_already_signed err then 10 else 0)"
    and "proofs w' = proofs w" and "invoiceHistory w' = invoiceHistory w"
  using assms counter_value_bump_present [OF assms(2), of 10]
  by (auto simp: probe_and_rethrow_def handleOutputsHaveAlreadyBeenSignedError_def
      outputs_already_signed_def bump_counter_def split: option.splits if_splits)

text \<open>The rollback of the catch block.\<close>

lemma melt_catch_rollback:
  assumes "melt_catch env q k sp err inc w = (thrown, w')"
    and "\<not> isUnloading env" and "activeMint env = Inr m"
    and "checkMeltQuote env (mq_quote q) = Inr mintQuote" and "mq_state mintQuote = UNPAID"
    and "find_counter (keysetCounters w) k \<noteq> None"
  shows "counter_value w' k
           = counter_value w k - inc + (if outputs_already_signed err then 10 else 0)"
    and "proofs w' = proofs (setReserved sp False None w)"
    and "invoiceHistory w' = remove_first_quote (mq_quote q) (invoiceHistory w)"
proof -
  let ?w1 = "log_request (CheckMeltQuote (mq_quote q)) w"
  let ?w2 = "setReserved sp False None ?w1"
  let ?w3 = "bump_counter k (- inc) ?w2"
  let ?w4 = "removeOutgoingInvoiceFromHistory (mq_quote q) ?w3"
  have p: "probe_and_rethrow k err ?w4 = (thrown, w')"
    using assms(1-5) by (simp add: melt_catch_def Let_def)
  have pres2: "find_counter (keysetCounters ?w2) k \<noteq> None"
    using assms(6) by simp
  have pres4: "find_counter (keysetCounters ?w4) k \<noteq> None"
    using bump_counter_present [OF pres2, of "- inc"] by simp
  have c4: "counter_value ?w4 k = counter_value w k - inc"
    using counter_value_bump_present [OF pres2, of "- inc"]
    by (simp add: counter_value_cong [of ?w4 ?w3])
  show "counter_value w' k
           = counter_value w k - inc + (if outputs_already_signed err then 10 else 0)"
    using probe_counter(1) [OF p pres4] c4 by simp
  show "proofs w' = proofs (setReserved sp False None w)"
    using probe_counter(2) [OF p pres4]
    by (simp add: removeOutgoingInvoiceFromHistory_def bump_counter_def setReserved_def
        log_request_def)
  show "invoiceHistory w' = remove_first_quote (mq_quote q) (invoiceHistory w)"
    using probe_counter(3) [OF p pres4]
    by (simp add: removeOutgoingInvoiceFromHistory_def bump_counter_def setReserved_def
        log_request_def)
qed

text \<open>
  Every rolled-back payment: the counter ends above its value before the payment by
  the number of send proofs (and by 10 more when the error is the signed-outputs
  error); only the change outputs are taken back.
\<close>

lemma melt_pay_rollback:
  assumes "melt_pay env q k sp amt w = (Inl thrown, w')"
    and "wallet_meltProofs env q sp k (counter_value w k) = Inl err"
    and "\<not> isUnloading env" and "activeMint env = Inr m"
    and "checkMeltQuote env (mq_quote q) = Inr mintQuote" and "mq_state mintQuote = UNPAID"
  shows "counter_value w' k
           = counter_value w k + int (length sp) + (if outputs_already_signed err then 10 else 0)"
    and "\<forall>p \<in> set (proofs w'). secret p \<in> set (map secret sp)
            \<longrightarrow> \<not> reserved p \<and> quote p = None"
    and "length (filter (\<lambda>i. ih_quote i = mq_quote q) (invoiceHistory w'))
           = length (filter (\<lambda>i. ih_quote i = mq_quote q) (invoiceHistory w))"
    and "find (\<lambda>i. ih_quote i = mq_quote q) (invoiceHistory w) = None
           \<Longrightarrow> invoiceHistory w' = invoiceHistory w"
proof -
  have cv: "fst (read_counter k (addOutgoingPendingInvoiceToHistory env q sp w)) = counter_value w k"
    by (simp add: read_counter_def counter_value_def split: prod.splits)
  from assms(1,2) cv obtain inc w1 where
    t: "melt_try env q k sp amt w = (Inl (err, inc), w1)"
    and c: "melt_catch env q k sp err inc w1 = (thrown, w')"
    by (auto simp: melt_pay_def melt_try_def Let_def split: prod.splits sum.splits)
  note tf = melt_try_fail [OF t]
  from tf have pres: "find_counter (keysetCounters w1) k \<noteq> None"
    by simp
  note rb = melt_catch_rollback [OF c assms(3-6) pres]
  show "counter_value w' k
           = counter_value w k + int (length sp) + (if outputs_already_signed err then 10 else 0)"
    using rb(1) tf by simp
  show "\<forall>p \<in> set (proofs w'). secret p \<in> set (map secret sp)
            \<longrightarrow> \<not> reserved p \<and> quote p = None"
    using rb(2) by (auto simp: setReserved_def)
  have h: "invoiceHistory w' = remove_first_quote (mq_quote q)
             (invoiceHistory (addOutgoingPendingInvoiceToHistory env q sp w))"
    using rb(3) tf by simp
  show "length (filter (\<lambda>i. ih_quote i = mq_quote q) (invoiceHistory w'))
           = length (filter (\<lambda>i. ih_quote i = mq_quote q) (invoiceHistory w))"
    by (simp add: h length_remove_first_quote)
       (simp add: addOutgoingPendingInvoiceToHistory_def setReserved_def Let_def)
  show "invoiceHistory w' = invoiceHistory w"
    if "find (\<lambda>i. ih_quote i = mq_quote q) (invoiceHistory w) = None"
    using that
    by (simp add: h addOutgoingPendingInvoiceToHistory_def setReserved_def Let_def
        remove_first_quote_snoc)
qed

text \<open>
  Claim C1 at a rolled-back melt: one unreserved proof of 8 pays a quote of 6 with a
  fee reserve of 2 (no split is needed, so \<open>send\<close> leaves the counter alone), the melt
  request fails on the network, the process is not unloading and the re-queried quote
  is \<open>UNPAID\<close>.  The send proof is released and the pending entry is gone, but the
  counter, 7 before the call, is 8 after it: the bump for the one send proof is not
  taken back, only the bump for the one change output is.
\<close>

theorem melt_rollback_keeps_send_bump:
  "fst (melt unpaid_env melt_state) = Inl network_error
   \<and> \<not> isUnloading unpaid_env
   \<and> wallet_meltProofs unpaid_env quote_6_2 [proof8u] ''00ad'' 7 = Inl network_error
   \<and> checkMeltQuote unpaid_env ''q1'' = Inr quote_6_2
   \<and> mq_state quote_6_2 = UNPAID
   \<and> countChangeOutputs (mq_fee_reserve quote_6_2) = 1
   \<and> counter_value melt_state ''00ad'' = 7
   \<and> counter_value (snd (melt unpaid_env melt_state)) ''00ad'' = 8
   \<and> proofs (snd (melt unpaid_env melt_state)) = [proof8u]
   \<and> invoiceHistory (snd (melt unpaid_env melt_state)) = []"
proof -
  have "fst (melt unpaid_env melt_state) = Inl network_error"
    and "\<not> isUnloading unpaid_env"
    and "wallet_meltProofs unpaid_env quote_6_2 [proof8u] ''00ad'' 7 = Inl network_error"
    and "checkMeltQuote unpaid_env ''q1'' = Inr quote_6_2"
    and "mq_state quote_6_2 = UNPAID"
    and "countChangeOutputs (mq_fee_reserve quote_6_2) = 1"
    and "counter_value melt_state ''00ad'' = 7"
    and "counter_value (snd (melt unpaid_env melt_state)) ''00ad'' = 8"
    and "proofs (snd (melt unpaid_env melt_state)) = [proof8u]"
    and "invoiceHistory (snd (melt unpaid_env melt_state)) = []"
    by code_simp+
  then show ?thesis
    by simp
qed

section \<open>The multi-path allocation in double precision\<close>




text \<open>Rounding to the nearest integer, ties to even.\<close>

lemma frac_bounds: "0 \<le> t - of_int \<lfloor>t\<rfloor> \<and> t - of_int \<lfloor>t\<rfloor> < (1::rat)"
  by linarith

lemma rhe_cases:
  "round_half_even t = \<lfloor>t\<rfloor> \<and> t - of_int \<lfloor>t\<rfloor> \<le> 1 / 2
   \<or> round_half_even t = \<lfloor>t\<rfloor> + 1 \<and> 1 / 2 \<le> t - of_int \<lfloor>t\<rfloor>"
  unfolding round_half_even_def Let_def by auto

lemma rhe_error: "\<bar>of_int (round_half_even t) - t\<bar> \<le> 1 / 2"
  using rhe_cases [of t] frac_bounds [of t] by (auto simp: abs_le_iff)

lemma rhe_le: "t \<le> of_int M \<Longrightarrow> round_half_even t \<le> M"
proof -
  assume a: "t \<le> of_int M"
  then have f: "\<lfloor>t\<rfloor> \<le> M" by (simp add: floor_le_iff)
  show ?thesis
  proof (cases "\<lfloor>t\<rfloor> = M")
    case True
    then have "t - of_int \<lfloor>t\<rfloor> \<le> 0" using a by simp
    then show ?thesis using rhe_cases [of t] True by auto
  next
    case False
    then have "\<lfloor>t\<rfloor> + 1 \<le> M" using f by simp
    then show ?thesis using rhe_cases [of t] by auto
  qed
qed

lemma rhe_ge: "of_int M \<le> t \<Longrightarrow> M \<le> round_half_even t"
proof -
  assume "of_int M \<le> t"
  then have "M \<le> \<lfloor>t\<rfloor>" by (simp add: le_floor_iff)
  then show ?thesis using rhe_cases [of t] by auto
qed

text \<open>\<open>ilog2\<close> is the floor of the binary logarithm.\<close>

lemma quotient_of_pos:
  assumes "0 < x" "quotient_of x = (p, q)"
  shows "0 < p" "0 < q" "x = of_int p / of_int q"
  using assms quotient_of_denom_pos [of x p q] quotient_of_div [of x p q]
  by (auto simp: zero_less_divide_iff)

lemma bitlen_pow_bounds:
  assumes "0 < p"
  shows "(2::rat) powi (bitlen p - 1) \<le> of_int p" "of_int p < (2::rat) powi (bitlen p)"
proof -
  from bitlen_bounds [OF assms]
  have a: "2 ^ nat (bitlen p - 1) \<le> p" and b: "p < 2 ^ nat (bitlen p)" by simp_all
  have g: "1 \<le> bitlen p" using assms by (simp add: bitlen_alt_def)
  have "(2::rat) powi (bitlen p - 1) = 2 ^ nat (bitlen p - 1)"
    using g by (simp add: power_int_def)
  also have "\<dots> = of_int (2 ^ nat (bitlen p - 1))" by simp
  also have "\<dots> \<le> of_int p" using a by (simp only: of_int_le_iff)
  finally show "(2::rat) powi (bitlen p - 1) \<le> of_int p" .
  have "(of_int p :: rat) < of_int (2 ^ nat (bitlen p))" using b by (simp only: of_int_less_iff)
  also have "\<dots> = 2 powi (bitlen p)" using g by (simp add: power_int_def)
  finally show "of_int p < (2::rat) powi (bitlen p)" .
qed

lemma ilog2_bounds:
  assumes "0 < x"
  shows "2 powi (ilog2 x) \<le> x" and "x < 2 powi (ilog2 x + 1)"
proof -
  obtain p q where pq: "quotient_of x = (p, q)" by (cases "quotient_of x")
  note f = quotient_of_pos [OF assms pq]
  let ?d = "bitlen p - bitlen q"
  have il: "ilog2 x = (if 2 powi ?d \<le> x then ?d else ?d - 1)"
    by (simp add: ilog2_def pq Let_def)
  note bp = bitlen_pow_bounds [OF f(1)] and bq = bitlen_pow_bounds [OF f(2)]
  have qpos: "(0::rat) < of_int q" using f(2) by simp
  have lo: "(2::rat) powi (?d - 1) \<le> x"
  proof -
    have "(2::rat) powi (?d - 1) = 2 powi (bitlen p - 1) / 2 powi (bitlen q)"
      by (simp add: power_int_diff)
    also have "\<dots> \<le> of_int p / 2 powi (bitlen q)"
      using bp(1) by (simp add: divide_right_mono)
    also have "\<dots> \<le> of_int p / of_int q"
      using bq(2) qpos f(1) by (intro divide_left_mono) (auto simp: less_imp_le)
    finally show ?thesis using f(3) by simp
  qed
  have hi: "x < (2::rat) powi (?d + 1)"
  proof -
    have "x = of_int p / of_int q" by (rule f(3))
    also have "\<dots> < 2 powi (bitlen p) / of_int q"
      using bp(2) qpos by (simp add: divide_strict_right_mono)
    also have "\<dots> \<le> 2 powi (bitlen p) / 2 powi (bitlen q - 1)"
      using bq(1) qpos by (intro divide_left_mono) auto
    also have "\<dots> = 2 powi (?d + 1)"
      by (simp add: power_int_diff [symmetric] algebra_simps)
    finally show ?thesis .
  qed
  show "2 powi (ilog2 x) \<le> x"
    using lo by (auto simp: il)
  show "x < 2 powi (ilog2 x + 1)"
    using hi by (auto simp: il not_le)
qed
lemma pow2_pos: "(0::rat) < 2 powi u"
  by simp

lemma pow2_mono: "a \<le> b \<Longrightarrow> (2::rat) powi a \<le> 2 powi b"
  by (rule power_int_increasing) simp_all

lemma pow2_le_imp_le: "(2::rat) powi a \<le> 2 powi b \<Longrightarrow> a \<le> b"
proof (rule ccontr)
  assume le: "(2::rat) powi a \<le> 2 powi b" and "\<not> a \<le> b"
  then have "b + 1 \<le> a" by simp
  then have "(2::rat) powi (b + 1) \<le> 2 powi a" by (rule pow2_mono)
  moreover have "(2::rat) powi (b + 1) = 2 * 2 powi b" by (simp add: power_int_add)
  ultimately show False using le pow2_pos [of b] by linarith
qed

lemma fl64_scaled:
  assumes "x \<noteq> 0"
  shows "fl64 x = of_int (round_half_even (x / 2 powi ulp_exponent x)) * 2 powi ulp_exponent x"
  using assms by (simp add: fl64_def Let_def)

text \<open>Rounding moves a number by at most half the spacing.\<close>

lemma fl64_half_ulp:
  assumes "x \<noteq> 0"
  shows "\<bar>fl64 x - x\<bar> \<le> 2 powi ulp_exponent x / 2"
proof -
  let ?u = "ulp_exponent x"
  let ?t = "x / 2 powi ?u"
  have x: "x = ?t * 2 powi ?u" by simp
  have "fl64 x - x = (of_int (round_half_even ?t) - ?t) * 2 powi ?u"
    by (simp add: fl64_scaled [OF assms] algebra_simps)
  then have "\<bar>fl64 x - x\<bar> = \<bar>of_int (round_half_even ?t) - ?t\<bar> * 2 powi ?u"
    by (simp add: abs_mult)
  also have "\<dots> \<le> (1 / 2) * 2 powi ?u"
    by (intro mult_right_mono rhe_error) (simp add: less_imp_le)
  finally show ?thesis by simp
qed


lemma fl64_error: "\<bar>fl64 x - x\<bar> \<le> \<bar>x\<bar> / 2 ^ 53 + tiny"
proof (cases "x = 0")
  case True
  then show ?thesis by (simp add: fl64_def tiny_def)
next
  case False
  then have pos: "0 < \<bar>x\<bar>" by simp
  let ?e = "ilog2 \<bar>x\<bar>"
  have lo: "2 powi ?e \<le> \<bar>x\<bar>" by (rule ilog2_bounds(1) [OF pos])
  have u: "ulp_exponent x = ?e - 52 \<or> ulp_exponent x = - 1074"
    by (auto simp: ulp_exponent_def max_def)
  then have "2 powi ulp_exponent x / 2 \<le> \<bar>x\<bar> / 2 ^ 53 + tiny"
  proof
    assume a: "ulp_exponent x = ?e - 52"
    have "(2::rat) powi (?e - 52) / 2 = 2 powi ?e / 2 ^ 53"
      by (simp add: power_int_diff)
    also have "\<dots> \<le> \<bar>x\<bar> / 2 ^ 53"
      using lo by (simp add: divide_right_mono)
    finally show ?thesis using a by (simp add: tiny_def)
  next
    assume a: "ulp_exponent x = - 1074"
    have "(2::rat) powi (- 1074) / 2 = tiny"
      by (simp add: tiny_def power_int_minus divide_simps)
    then show ?thesis using a by simp
  qed
  then show ?thesis using fl64_half_ulp [OF False] by linarith
qed

lemma fl64_nonneg: "0 \<le> x \<Longrightarrow> 0 \<le> fl64 x"
proof (cases "x = 0")
  case True
  then show ?thesis by (simp add: fl64_def)
next
  case False
  assume "0 \<le> x"
  then have "of_int 0 \<le> x / 2 powi ulp_exponent x" by (simp add: less_imp_le)
  then have "0 \<le> round_half_even (x / 2 powi ulp_exponent x)" by (rule rhe_ge)
  then show ?thesis by (simp add: fl64_scaled [OF False] less_imp_le)
qed

text \<open>One half is a double, so rounding does not leave the interval around zero it bounds.\<close>

lemma fl64_half: 
  assumes "\<bar>x\<bar> \<le> 1 / 2"
  shows "\<bar>fl64 x\<bar> \<le> 1 / 2"
proof (cases "x = 0")
  case True
  then show ?thesis by (simp add: fl64_def)
next
  case False
  then have pos: "0 < \<bar>x\<bar>" by simp
  let ?u = "ulp_exponent x"
  have "2 powi ilog2 \<bar>x\<bar> \<le> \<bar>x\<bar>" by (rule ilog2_bounds(1) [OF pos])
  also have "\<dots> \<le> 2 powi (- 1)" using assms by simp
  finally have "ilog2 \<bar>x\<bar> \<le> - 1" by (rule pow2_le_imp_le)
  then have u: "?u \<le> - 1" by (simp add: ulp_exponent_def)
  define M :: int where "M = 2 ^ nat (- 1 - ?u)"
  have M: "(of_int M :: rat) = 2 powi (- 1 - ?u)"
    using u by (simp add: M_def power_int_def)
  have half: "(of_int M :: rat) * 2 powi ?u = 1 / 2"
    by (simp add: M power_int_diff power_int_minus)
  define t where "t = x / 2 powi ?u"
  have "\<bar>x\<bar> / 2 powi ?u \<le> (1 / 2) / 2 powi ?u"
    using assms by (intro divide_right_mono) (simp_all add: less_imp_le)
  also have "(1 / 2) / 2 powi ?u = (of_int M :: rat)"
    by (simp add: M power_int_diff power_int_minus)
  finally have "\<bar>t\<bar> \<le> of_int M"
    by (simp add: t_def)
  then have b: "t \<le> of_int M" "of_int (- M) \<le> t"
    by (simp_all add: abs_le_iff)
  have "round_half_even t \<le> M" "- M \<le> round_half_even t"
    using rhe_le [OF b(1)] rhe_ge [OF b(2)] by simp_all
  then have "\<bar>round_half_even t\<bar> \<le> M"
    by simp
  then have "\<bar>of_int (round_half_even t) :: rat\<bar> \<le> of_int M"
    by (metis of_int_abs of_int_le_iff)
  then have "\<bar>fl64 x\<bar> \<le> of_int M * 2 powi ?u"
    by (simp add: fl64_scaled [OF False] abs_mult mult_right_mono less_imp_le t_def)
  then show ?thesis using half by simp
qed



lemma tiny_small: "0 \<le> tiny" "3 * tiny \<le> (1 / 2) / 2 ^ 53" "tiny \<le> 1 / 2"
  by (simp_all add: tiny_def)


text \<open>
  One round, started with a carry of at most one half: the amount is not negative, the
  new carry is at most one half, and amount plus new carry differ from the exact share
  plus old carry by the three rounding errors of the round.
\<close>

lemma mpp_step_bounds:
  assumes N: "0 \<le> N" and w: "0 \<le> wt" "wt \<le> 1" and c: "\<bar>c\<bar> \<le> 1 / 2"
    and st: "mpp_step N wt c = (p, c')"
  shows "0 \<le> p" and "\<bar>c'\<bar> \<le> 1 / 2"
    and "\<bar>of_int p + c' - (N * wt + c)\<bar> \<le> step_error N"
proof -
  define a where "a = fl64 (N * wt)"
  define s where "s = a + c"
  define x where "x = fl64 s"
  define r where "r = x - of_int p"
  have p: "p = \<lfloor>x + 1 / 2\<rfloor>" and c': "c' = fl64 r"
    using st
    by (auto simp: mpp_step_def Let_def js_add_def js_mul_def js_sub_def Math_round_def
        a_def s_def x_def r_def)
  have nw: "0 \<le> N * wt" "N * wt \<le> N"
    using N w by (simp_all add: mult_left_le)
  have a0: "0 \<le> a"
    unfolding a_def by (rule fl64_nonneg [OF nw(1)])
  have ea: "\<bar>a - N * wt\<bar> \<le> N / 2 ^ 53 + tiny"
  proof -
    have "\<bar>a - N * wt\<bar> \<le> \<bar>N * wt\<bar> / 2 ^ 53 + tiny"
      unfolding a_def by (rule fl64_error)
    also have "\<bar>N * wt\<bar> / 2 ^ 53 \<le> N / 2 ^ 53"
      using nw by (simp add: divide_right_mono)
    finally show ?thesis by simp
  qed
  have n53: "N / 2 ^ 53 \<le> N"
    using N by (simp add: divide_le_eq)
  have s_abs: "\<bar>s\<bar> \<le> 2 * N + 1"
    using ea a0 c nw n53 tiny_small unfolding s_def by (simp add: abs_le_iff) linarith
  have ex: "\<bar>x - s\<bar> \<le> (2 * N + 1) / 2 ^ 53 + tiny"
  proof -
    have "\<bar>x - s\<bar> \<le> \<bar>s\<bar> / 2 ^ 53 + tiny"
      unfolding x_def by (rule fl64_error)
    also have "\<bar>s\<bar> / 2 ^ 53 \<le> (2 * N + 1) / 2 ^ 53"
      using s_abs by (simp add: divide_right_mono)
    finally show ?thesis by simp
  qed
  have x_lo: "- (1 / 2) \<le> x"
  proof (cases "0 \<le> s")
    case True
    then have "0 \<le> x" unfolding x_def by (rule fl64_nonneg)
    then show ?thesis by simp
  next
    case False
    then have "\<bar>s\<bar> \<le> 1 / 2"
      using a0 c unfolding s_def by (simp add: abs_le_iff)
    then have "\<bar>x\<bar> \<le> 1 / 2" unfolding x_def by (rule fl64_half)
    then show ?thesis by (simp add: abs_le_iff)
  qed
  then have "0 \<le> x + 1 / 2" by simp
  then show "0 \<le> p" unfolding p by simp
  have r_abs: "\<bar>r\<bar> \<le> 1 / 2"
  proof -
    have "of_int p \<le> x + 1 / 2" "x + 1 / 2 < of_int p + 1"
      unfolding p by linarith+
    then show ?thesis unfolding r_def by linarith
  qed
  show "\<bar>c'\<bar> \<le> 1 / 2"
    unfolding c' by (rule fl64_half [OF r_abs])
  have ec: "\<bar>c' - r\<bar> \<le> (1 / 2) / 2 ^ 53 + tiny"
  proof -
    have "\<bar>c' - r\<bar> \<le> \<bar>r\<bar> / 2 ^ 53 + tiny"
      unfolding c' by (rule fl64_error)
    also have "\<bar>r\<bar> / 2 ^ 53 \<le> (1 / 2) / 2 ^ 53"
      using r_abs by (simp add: divide_right_mono)
    finally show ?thesis by simp
  qed
  have "of_int p + c' - (N * wt + c) = (x - s) + (a - N * wt) + (c' - r)"
    by (simp add: r_def s_def)
  then have "\<bar>of_int p + c' - (N * wt + c)\<bar>
      \<le> \<bar>x - s\<bar> + \<bar>a - N * wt\<bar> + \<bar>c' - r\<bar>"
    by linarith
  also have "\<dots> \<le> ((2 * N + 1) / 2 ^ 53 + tiny) + (N / 2 ^ 53 + tiny) + ((1 / 2) / 2 ^ 53 + tiny)"
    using ex ea ec by linarith
  also have "\<dots> = (3 * N + 3 / 2) / 2 ^ 53 + 3 * tiny"
    by (simp add: field_simps)
  also have "\<dots> \<le> (3 * N + 3 / 2) / 2 ^ 53 + (1 / 2) / 2 ^ 53"
    using tiny_small(2) by linarith
  also have "\<dots> = step_error N"
    by (simp add: step_error_def field_simps)
  finally show "\<bar>of_int p + c' - (N * wt + c)\<bar> \<le> step_error N" .
qed



lemma mpp_amounts_simps [simp]:
  "mpp_amounts [] = []"
  "mpp_amounts ((m, mpp_payload u r a) # pls) = a # mpp_amounts pls"
  by (simp_all add: mpp_amounts_def mpp_payload_def)

text \<open>
  The loop from mint \<open>i\<close> on, started with a carry of at most one half: every logged
  amount is a non-negative integer, the payloads carry the positive ones, and their
  sum plus the last carry is within one \<open>step_error\<close> per mint of the exact share.
\<close>

lemma mpp_payloads_sum:
  assumes "0 \<le> N" and "\<forall>w \<in> set ws. 0 \<le> w \<and> w \<le> 1"
    and "\<bar>c\<bar> \<le> 1 / 2" and "i + length ms \<le> length ws"
  shows "(\<forall>l \<in> set (mpp_logged N ws ms i (Some c)). \<exists>a. l = Some a \<and> 0 \<le> a)
    \<and> mpp_amounts (mpp_payloads u r N ws ms i (Some c))
        = filter (\<lambda>a. 0 < a) (map the (mpp_logged N ws ms i (Some c)))
    \<and> (\<exists>c'. \<bar>c'\<bar> \<le> 1 / 2
          \<and> \<bar>of_int (sum_list (mpp_amounts (mpp_payloads u r N ws ms i (Some c)))) + c'
               - (N * sum_list (take (length ms) (drop i ws)) + c)\<bar>
              \<le> of_nat (length ms) * step_error N)"
  using assms(3,4)
proof (induction ms arbitrary: i c)
  case Nil
  then show ?case by (auto simp: mpp_payloads.simps mpp_logged.simps)
next
  case (Cons m ms)
  from Cons.prems(2) have i: "i < length ws" and rest: "(i + 1) + length ms \<le> length ws"
    by simp_all
  have wi: "0 \<le> ws ! i" "ws ! i \<le> 1"
    using assms(2) i by simp_all
  obtain p c1 where st: "mpp_step N (ws ! i) c = (p, c1)"
    by (cases "mpp_step N (ws ! i) c")
  note b = mpp_step_bounds [OF assms(1) wi Cons.prems(1) st]
  let ?rest = "mpp_payloads u r N ws ms (i + 1) (Some c1)"
  let ?logged = "mpp_logged N ws ms (i + 1) (Some c1)"
  from Cons.IH [OF b(2) rest] obtain c' where
    lg: "\<forall>l \<in> set ?logged. \<exists>a. l = Some a \<and> 0 \<le> a"
    and am: "mpp_amounts ?rest = filter (\<lambda>a. 0 < a) (map the ?logged)"
    and c': "\<bar>c'\<bar> \<le> 1 / 2"
    and err: "\<bar>of_int (sum_list (mpp_amounts ?rest)) + c'
               - (N * sum_list (take (length ms) (drop (i + 1) ws)) + c1)\<bar>
              \<le> of_nat (length ms) * step_error N"
    by blast
  have unfold: "mpp_payloads u r N ws (m # ms) i (Some c)
      = (if p > 0 then (m, mpp_payload u r p) # ?rest else ?rest)"
    using i st by (simp add: mpp_payloads.simps weight_at_def Let_def)
  have unfold_logged: "mpp_logged N ws (m # ms) i (Some c) = Some p # ?logged"
    using i st by (simp add: mpp_logged.simps weight_at_def Let_def)
  have sum: "sum_list (mpp_amounts (mpp_payloads u r N ws (m # ms) i (Some c)))
      = p + sum_list (mpp_amounts ?rest)"
    unfolding unfold using b(1) by auto
  have tk: "take (length (m # ms)) (drop i ws) = ws ! i # take (length ms) (drop (i + 1) ws)"
    using i by (simp add: Cons_nth_drop_Suc [symmetric])
  then have tks: "sum_list (take (Suc (length ms)) (drop i ws))
      = ws ! i + sum_list (take (length ms) (drop (Suc i) ws))"
    by simp
  have "of_int (sum_list (mpp_amounts (mpp_payloads u r N ws (m # ms) i (Some c)))) + c'
          - (N * sum_list (take (length (m # ms)) (drop i ws)) + c)
      = (of_int p + c1 - (N * (ws ! i) + c))
        + (of_int (sum_list (mpp_amounts ?rest)) + c'
            - (N * sum_list (take (length ms) (drop (i + 1) ws)) + c1))"
    by (simp add: sum tks algebra_simps)
  then have "\<bar>of_int (sum_list (mpp_amounts (mpp_payloads u r N ws (m # ms) i (Some c)))) + c'
          - (N * sum_list (take (length (m # ms)) (drop i ws)) + c)\<bar>
      \<le> step_error N + of_nat (length ms) * step_error N"
    using b(3) err by linarith
  also have "\<dots> = of_nat (length (m # ms)) * step_error N"
    by (simp add: algebra_simps)
  finally have e: "\<bar>of_int (sum_list (mpp_amounts (mpp_payloads u r N ws (m # ms) i (Some c)))) + c'
          - (N * sum_list (take (length (m # ms)) (drop i ws)) + c)\<bar>
      \<le> of_nat (length (m # ms)) * step_error N" .
  have l: "\<forall>l \<in> set (mpp_logged N ws (m # ms) i (Some c)). \<exists>a. l = Some a \<and> 0 \<le> a"
    unfolding unfold_logged using lg b(1) by simp
  have a: "mpp_amounts (mpp_payloads u r N ws (m # ms) i (Some c))
        = filter (\<lambda>a. 0 < a) (map the (mpp_logged N ws (m # ms) i (Some c)))"
    unfolding unfold unfold_logged using am by simp
  show ?case using l a c' e by blast
qed

text \<open>
  Claim C3, as stated, at the invoice amount 6004799503160666 (below \<open>2^53\<close>) and the
  weights 0.75 and 0.25, both doubles, in \<open>[0, 1]\<close> and adding up to 1.  The product
  \<open>6004799503160666 * 0.75 = 4503599627370499.5\<close> lies between two neighbouring
  doubles and is rounded to the even one, 4503599627370500; the carry is 0, and the
  second share 1501199875790166.5 is rounded up by \<open>Math.round\<close>.  The amounts add up
  to one more than the invoice.
\<close>

theorem mpp_allocation_sum_counterexample:
  "(0::int) < 6004799503160666
   \<and> list_all (\<lambda>w. 0 \<le> w \<and> w \<le> 1 \<and> fl64 w = w) [3 / 4, 1 / 4]
   \<and> sum_list [3 / 4, 1 / 4 :: rat] = 1
   \<and> fl64 6004799503160666 = 6004799503160666
   \<and> js_mul 6004799503160666 (3 / 4) = 4503599627370500
   \<and> mpp_amounts (mpp_payloads ''sat'' ''lnbc1'' 6004799503160666 [3 / 4, 1 / 4]
         [mint_a, mint_b] 0 (Some 0)) = [4503599627370500, 1501199875790167]
   \<and> sum_list (mpp_amounts (mpp_payloads ''sat'' ''lnbc1'' 6004799503160666 [3 / 4, 1 / 4]
         [mint_a, mint_b] 0 (Some 0))) \<noteq> 6004799503160666"
proof -
  have "list_all (\<lambda>w. 0 \<le> w \<and> w \<le> 1 \<and> fl64 w = w) [3 / 4, 1 / 4]"
    and "fl64 6004799503160666 = 6004799503160666"
    and "js_mul 6004799503160666 (3 / 4) = 4503599627370500"
    and "mpp_amounts (mpp_payloads ''sat'' ''lnbc1'' 6004799503160666 [3 / 4, 1 / 4]
         [mint_a, mint_b] 0 (Some 0)) = [4503599627370500, 1501199875790167]"
    by code_simp+
  then show ?thesis
    by simp
qed

text \<open>
  Claim C3, amended.  For every weight vector with entries in \<open>[0, 1]\<close> that add up
  to 1, one weight per mint, and every positive integer invoice amount \<open>n\<close> with
  \<open>mints * (3 * n + 2) < 2^52\<close>, the allocation as the code computes it, in double
  precision, logs amounts that are all integers \<open>\<ge> 0\<close>, pushes a payload for exactly
  the positive ones, and the amounts of the payloads add up to \<open>n\<close>.
\<close>

theorem mpp_allocation_sum:
  assumes "0 < n" and "length ws = length ms"
    and "\<forall>w \<in> set ws. 0 \<le> w \<and> w \<le> 1" and "sum_list ws = 1"
    and "int (length ms) * (3 * n + 2) < 2 ^ 52"
  shows "(\<forall>l \<in> set (mpp_logged (of_int n) ws ms 0 (Some 0)). \<exists>a. l = Some a \<and> 0 \<le> a)
    \<and> mpp_amounts (mpp_payloads u r (of_int n) ws ms 0 (Some 0))
        = filter (\<lambda>a. 0 < a) (map the (mpp_logged (of_int n) ws ms 0 (Some 0)))
    \<and> sum_list (mpp_amounts (mpp_payloads u r (of_int n) ws ms 0 (Some 0))) = n"
proof -
  let ?S = "sum_list (mpp_amounts (mpp_payloads u r (of_int n) ws ms 0 (Some 0)))"
  have N: "(0::rat) \<le> of_int n" using assms(1) by simp
  from mpp_payloads_sum [OF N assms(3), of 0 0 ms u r] assms(2)
  obtain c' where
    lg: "\<forall>l \<in> set (mpp_logged (of_int n) ws ms 0 (Some 0)). \<exists>a. l = Some a \<and> 0 \<le> a"
    and am: "mpp_amounts (mpp_payloads u r (of_int n) ws ms 0 (Some 0))
        = filter (\<lambda>a. 0 < a) (map the (mpp_logged (of_int n) ws ms 0 (Some 0)))"
    and c': "\<bar>c'\<bar> \<le> 1 / 2"
    and err: "\<bar>of_int ?S + c' - (of_int n * sum_list (take (length ms) (drop 0 ws)) + 0)\<bar>
                \<le> of_nat (length ms) * step_error (of_int n)"
    by auto
  have "(of_nat (length ms) * step_error (of_int n) :: rat)
      = of_int (int (length ms) * (3 * n + 2)) / 2 ^ 53"
    by (simp add: step_error_def)
  also have "\<dots> < of_int (2 ^ 52) / 2 ^ 53"
    using assms(5) by (intro divide_strict_right_mono) (simp_all only: of_int_less_iff, simp)
  also have "\<dots> = 1 / 2" by simp
  finally have small: "(of_nat (length ms) * step_error (of_int n) :: rat) < 1 / 2" .
  have "\<bar>(of_int ?S :: rat) + c' - of_int n\<bar> < 1 / 2"
    using err small assms(2,4) by simp
  then have "\<bar>(of_int ?S :: rat) - of_int n\<bar> < 1"
    using c' by linarith
  then have "\<bar>(of_int (?S - n) :: rat)\<bar> < 1" by simp
  then have "\<bar>?S - n\<bar> < 1"
    by (metis of_int_abs of_int_less_iff of_int_1)
  then have "?S = n" by simp
  then show ?thesis using lg am by blast
qed

theorem mpp_allocation_sum_witness:
  "(0::int) < 333
   \<and> length weights_532 = length [mint_a, mint_b, mint_c]
   \<and> list_all (\<lambda>w. 0 \<le> w \<and> w \<le> 1) weights_532
   \<and> sum_list weights_532 = 1
   \<and> int (length [mint_a, mint_b, mint_c]) * (3 * 333 + 2) < 2 ^ 52
   \<and> mpp_logged 333 weights_532 [mint_a, mint_b, mint_c] 0 (Some 0) = [Some 167, Some 99, Some 67]
   \<and> mpp_amounts (mpp_payloads ''sat'' ''lnbc1'' 333 weights_532 [mint_a, mint_b, mint_c] 0 (Some 0))
       = [167, 99, 67]
   \<and> sum_list (mpp_amounts
         (mpp_payloads ''sat'' ''lnbc1'' 333 weights_532 [mint_a, mint_b, mint_c] 0 (Some 0))) = 333"
proof -
  have h1: "(0::int) < 333" and h2: "length weights_532 = length [mint_a, mint_b, mint_c]"
    and h4: "sum_list weights_532 = 1"
    and h5: "int (length [mint_a, mint_b, mint_c]) * (3 * 333 + 2) < 2 ^ 52"
    by (simp_all add: weights_532_def)
  have la: "list_all (\<lambda>w. 0 \<le> w \<and> w \<le> 1) weights_532"
    by (simp add: weights_532_def)
  then have h3: "\<forall>w \<in> set weights_532. 0 \<le> w \<and> w \<le> 1"
    by (simp add: list_all_iff)
  have lg: "mpp_logged 333 weights_532 [mint_a, mint_b, mint_c] 0 (Some 0)
      = [Some 167, Some 99, Some 67]"
    by code_simp
  note t = mpp_allocation_sum [OF h1 h2 h3 h4 h5, of "''sat''" "''lnbc1''"]
  from t have s: "sum_list (mpp_amounts
         (mpp_payloads ''sat'' ''lnbc1'' (of_int 333) weights_532 [mint_a, mint_b, mint_c] 0 (Some 0)))
       = 333"
    by blast
  from t have "mpp_amounts
         (mpp_payloads ''sat'' ''lnbc1'' (of_int 333) weights_532 [mint_a, mint_b, mint_c] 0 (Some 0))
       = filter (\<lambda>a. 0 < a)
           (map the (mpp_logged (of_int 333) weights_532 [mint_a, mint_b, mint_c] 0 (Some 0)))"
    by blast
  then have a: "mpp_amounts
         (mpp_payloads ''sat'' ''lnbc1'' 333 weights_532 [mint_a, mint_b, mint_c] 0 (Some 0))
       = [167, 99, 67]"
    using lg by simp
  show ?thesis
    using h1 h2 la h4 h5 lg a s by simp
qed

end
